theory Spec2Isabelle
  imports Complex_Main "HOL-Library.Word" "HOL-Library.Sublist" "HOL-Library.Log_Nat"
    "HOL-Library.AList"
begin

unbundle bit_operations_syntax

section \<open>Python values, exceptions and strings\<close>

text \<open>
  A Python \<open>str\<close> is modelled as a \<open>string\<close>; a \<open>char\<close> stands for the code point of the
  same number (0 to 255). Exceptions are values; the string argument of a constructor is what
  \<open>str(e)\<close> yields. \<open>ClientError\<close> is botocore's exception class and carries
  \<open>e.response['Error']['Code']\<close> first; \<open>OtherException\<close> stands for every exception class
  the handler never inspects (connection errors, parameter validation errors and so on).
\<close>

datatype exn =
    KeyError string
  | IndexError string
  | TypeError string
  | AttributeError string
  | ZeroDivisionError string
  | OverflowError string
  | ValueError string
  | OSError string
  | ClientError string string
  | OtherException string

fun str_exn :: "exn \<Rightarrow> string" where
  "str_exn (KeyError m) = m"
| "str_exn (IndexError m) = m"
| "str_exn (TypeError m) = m"
| "str_exn (AttributeError m) = m"
| "str_exn (ZeroDivisionError m) = m"
| "str_exn (OverflowError m) = m"
| "str_exn (ValueError m) = m"
| "str_exn (OSError m) = m"
| "str_exn (ClientError code m) = m"
| "str_exn (OtherException m) = m"

text \<open>
  The event is whatever Python object the caller passes: here the values a decoded JSON
  document consists of. A dictionary is given by its items; its keys are strings.
\<close>

datatype pyval =
    PNone
  | PBool bool
  | PInt int
  | PStr string
  | PList "pyval list"
  | PDict "(string \<times> pyval) list"

text \<open>\<open>v[k]\<close> for a string key \<open>k\<close>, and \<open>v[0]\<close>.\<close>

fun subscript_key :: "pyval \<Rightarrow> string \<Rightarrow> exn + pyval" where
  "subscript_key (PDict kvs) k =
     (case map_of kvs k of None \<Rightarrow> Inl (KeyError k) | Some v \<Rightarrow> Inr v)"
| "subscript_key (PList xs) k = Inl (TypeError ''list indices must be integers or slices, not str'')"
| "subscript_key (PStr s) k = Inl (TypeError ''string indices must be integers'')"
| "subscript_key v k = Inl (TypeError ''object is not subscriptable'')"

fun subscript_0 :: "pyval \<Rightarrow> exn + pyval" where
  "subscript_0 (PList []) = Inl (IndexError ''list index out of range'')"
| "subscript_0 (PList (x # xs)) = Inr x"
| "subscript_0 (PStr []) = Inl (IndexError ''string index out of range'')"
| "subscript_0 (PStr (c # cs)) = Inr (PStr [c])"
| "subscript_0 (PDict kvs) = Inl (KeyError ''0'')"
| "subscript_0 v = Inl (TypeError ''object is not subscriptable'')"

text \<open>\<open>event['Records'][0]['s3'][a][b]\<close>, evaluated left to right.\<close>

definition s3_record_field :: "pyval \<Rightarrow> string \<Rightarrow> string \<Rightarrow> exn + pyval" where
  "s3_record_field event a b =
     (case subscript_key event ''Records'' of Inl e \<Rightarrow> Inl e | Inr recs \<Rightarrow>
     (case subscript_0 recs of Inl e \<Rightarrow> Inl e | Inr r \<Rightarrow>
     (case subscript_key r ''s3'' of Inl e \<Rightarrow> Inl e | Inr s \<Rightarrow>
     (case subscript_key s a of Inl e \<Rightarrow> Inl e | Inr x \<Rightarrow>
      subscript_key x b))))"

subsection \<open>String operations of the standard library\<close>

text \<open>\<open>str.lower()\<close> on code points below 256: A-Z and the Latin-1 capitals except U+00D7.\<close>

definition lower_char :: "char \<Rightarrow> char" where
  "lower_char c =
     (let n = (of_char c :: nat)
      in if (65 \<le> n \<and> n \<le> 90) \<or> (192 \<le> n \<and> n \<le> 222 \<and> n \<noteq> 215)
         then char_of (n + 32) else c)"

definition lower :: "string \<Rightarrow> string" where
  "lower s = map lower_char s"

definition startswith :: "string \<Rightarrow> string \<Rightarrow> bool" where
  "startswith s p = (take (length p) s = p)"

text \<open>\<open>s.replace(old, new)\<close> for one-character \<open>old\<close> and \<open>new\<close>.\<close>

definition replace_char :: "char \<Rightarrow> char \<Rightarrow> string \<Rightarrow> string" where
  "replace_char old new s = map (\<lambda>c. if c = old then new else c) s"

text \<open>\<open>s.rfind(c)\<close>: the highest index of \<open>c\<close>, or -1.\<close>

fun rfind :: "char \<Rightarrow> string \<Rightarrow> int" where
  "rfind c [] = -1"
| "rfind c (x # xs) =
     (let r = rfind c xs in if 0 \<le> r then r + 1 else if x = c then 0 else -1)"

text \<open>
  \<open>os.path.splitext\<close> (posixpath): the extension starts at the last dot after the last
  slash, unless only dots lie between that slash and the dot. The loop is the one that
  skips the leading dots of the file name.
\<close>

function splitext_scan :: "string \<Rightarrow> nat \<Rightarrow> nat \<Rightarrow> bool" where
  "splitext_scan p filenameIndex dotIndex =
     (if filenameIndex < dotIndex
      then (if p ! filenameIndex \<noteq> CHR ''.'' then True
            else splitext_scan p (filenameIndex + 1) dotIndex)
      else False)"
  by pat_completeness auto
termination
  by (relation "measure (\<lambda>(p, i, d). d - i)") auto

declare splitext_scan.simps [simp del]

definition splitext :: "string \<Rightarrow> string \<times> string" where
  "splitext p =
     (let sepIndex = rfind CHR ''/'' p; dotIndex = rfind CHR ''.'' p
      in if dotIndex > sepIndex \<and> splitext_scan p (nat (sepIndex + 1)) (nat dotIndex)
         then (take (nat dotIndex) p, drop (nat dotIndex) p)
         else (p, []))"

text \<open>\<open>os.path.basename\<close> (posixpath).\<close>

definition basename :: "string \<Rightarrow> string" where
  "basename p = drop (nat (rfind CHR ''/'' p + 1)) p"

text \<open>\<open>os.path.join(a, b)\<close> (posixpath) for two components.\<close>

definition path_join :: "string \<Rightarrow> string \<Rightarrow> string" where
  "path_join a b =
     (if startswith b ''/'' then b
      else if a = [] \<or> last a = CHR ''/'' then a @ b
      else a @ ''/'' @ b)"

text \<open>\<open>str(n)\<close> for an integer, as an f-string renders it.\<close>

function str_nat :: "nat \<Rightarrow> string" where
  "str_nat n = (if n < 10 then [char_of (48 + n)] else str_nat (n div 10) @ [char_of (48 + n mod 10)])"
  by pat_completeness auto
termination
  by (relation "measure id") auto

declare str_nat.simps [simp del]

definition str_int :: "int \<Rightarrow> string" where
  "str_int i = (if i < 0 then CHR ''-'' # str_nat (nat (- i)) else str_nat (nat i))"

text \<open>
  \<open>uuid.uuid4().hex\<close>: the 128-bit value as 32 lowercase hexadecimal digits, most
  significant first. The value itself is the random input of an invocation.
\<close>

definition hex_digit :: "nat \<Rightarrow> char" where
  "hex_digit n = ''0123456789abcdef'' ! (n mod 16)"

definition uuid_hex :: "128 word \<Rightarrow> string" where
  "uuid_hex u = map (\<lambda>i. hex_digit (unat (drop_bit (4 * (31 - i)) u AND 15))) [0..<32]"

section \<open>Names and keys\<close>

text \<open>\<open>sanitize_filename\<close>.\<close>

definition sanitize_filename :: "string \<Rightarrow> string" where
  "sanitize_filename filename =
     replace_char CHR '')'' CHR ''_''
       (replace_char CHR ''('' CHR ''_'' (replace_char CHR '' '' CHR ''_'' filename))"

text \<open>The names \<open>lambda_handler\<close> derives from the decoded object key and the random value.\<close>

definition file_ext_of :: "string \<Rightarrow> string" where
  "file_ext_of object_key = lower (snd (splitext object_key))"

definition supported_exts :: "string list" where
  "supported_exts = [''.jpg'', ''.jpeg'', ''.png'']"

definition name_without_ext_of :: "string \<Rightarrow> string" where
  "name_without_ext_of object_key = fst (splitext (basename object_key))"

definition random_id_of :: "128 word \<Rightarrow> string" where
  "random_id_of u = take 8 (uuid_hex u)"

definition base_file_name_of :: "string \<Rightarrow> 128 word \<Rightarrow> string" where
  "base_file_name_of object_key u =
     sanitize_filename (name_without_ext_of object_key) @ ''_'' @ random_id_of u"

definition save_ext_of :: "string \<Rightarrow> string" where
  "save_ext_of file_ext = (if lower file_ext = ''.png'' then ''.png'' else ''.jpg'')"

definition folder_path_of :: "string \<Rightarrow> string" where
  "folder_path_of base_file_name = ''processed_image/'' @ base_file_name @ ''/''"

definition output_file_name_of :: "int \<Rightarrow> string \<Rightarrow> string \<Rightarrow> string" where
  "output_file_name_of sz base_file_name save_ext =
     str_int sz @ ''_'' @ base_file_name @ save_ext"

definition s3_key_of :: "int \<Rightarrow> string \<Rightarrow> string \<Rightarrow> string" where
  "s3_key_of sz base_file_name save_ext =
     folder_path_of base_file_name @ output_file_name_of sz base_file_name save_ext"

definition sizes :: "int list" where
  "sizes = [200, 300, 500, 1000]"

section \<open>Double-precision arithmetic\<close>

text \<open>
  Python's \<open>float\<close> is an IEEE 754 double. A finite double is \<open>Finite m k\<close>, standing for
  \<open>m * 2 ^ k\<close>; the sign of a zero is not kept, since no operation used here reads it.
  Every operation rounds the exact result to the nearest double, ties to the even
  mantissa, with gradual underflow below \<open>2 ^ -1022\<close> and overflow from \<open>2 ^ 1024\<close> on.
\<close>

datatype pyfloat = Finite int int | Infinity bool | NaN

definition float_val :: "pyfloat \<Rightarrow> rat" where
  "float_val x = (case x of Finite m k \<Rightarrow> of_int m * 2 powi k | _ \<Rightarrow> 0)"

text \<open>The quotient \<open>n / d\<close> rounded to the nearest integer, ties to even (\<open>0 \<le> n\<close>, \<open>0 < d\<close>).\<close>

definition rne_div :: "int \<Rightarrow> int \<Rightarrow> int" where
  "rne_div n d =
     (let q = n div d; r = n mod d
      in if 2 * r < d then q else if 2 * r > d then q + 1
         else if even q then q else q + 1)"

text \<open>The exponent \<open>e\<close> with \<open>2 ^ e \<le> n / d < 2 ^ (e + 1)\<close> (\<open>0 < n\<close>, \<open>0 < d\<close>).\<close>

definition floor_log2_quot :: "int \<Rightarrow> int \<Rightarrow> int" where
  "floor_log2_quot n d =
     (let s = bitlen n - bitlen d
      in if (if 0 \<le> s then d * 2 ^ nat s \<le> n else d \<le> n * 2 ^ nat (- s)) then s else s - 1)"

text \<open>The double nearest to \<open>a / b\<close> (\<open>0 < b\<close>).\<close>

definition round_quot :: "int \<Rightarrow> int \<Rightarrow> pyfloat" where
  "round_quot a b =
     (if a = 0 then Finite 0 0
      else let n = \<bar>a\<bar>;
               e = max (floor_log2_quot n b) (- 1022);
               k = e - 52;
               m = rne_div (n * 2 ^ nat (- k)) (b * 2 ^ nat k)
           in if bitlen m + k > 1024 then Infinity (a < 0) else Finite (sgn a * m) k)"

text \<open>\<open>a / b\<close> on integers: true division, correctly rounded.\<close>

definition py_truediv :: "int \<Rightarrow> int \<Rightarrow> exn + pyfloat" where
  "py_truediv a b =
     (if b = 0 then Inl (ZeroDivisionError ''division by zero'')
      else case round_quot (a * sgn b) \<bar>b\<bar> of
             Finite m k \<Rightarrow> Inr (Finite m k)
           | _ \<Rightarrow> Inl (OverflowError ''integer division result too large for a float''))"

text \<open>The conversion \<open>float(i)\<close> that a mixed operation applies to its integer operand.\<close>

definition py_float_of_int :: "int \<Rightarrow> exn + pyfloat" where
  "py_float_of_int i =
     (case round_quot i 1 of
        Finite m k \<Rightarrow> Inr (Finite m k)
      | _ \<Rightarrow> Inl (OverflowError ''int too large to convert to float''))"

text \<open>The product of two doubles; overflow gives an infinity, not an exception.\<close>

fun float_mul :: "pyfloat \<Rightarrow> pyfloat \<Rightarrow> pyfloat" where
  "float_mul (Finite m1 k1) (Finite m2 k2) =
     (let m = m1 * m2; k = k1 + k2
      in if 0 \<le> k then round_quot (m * 2 ^ nat k) 1 else round_quot m (2 ^ nat (- k)))"
| "float_mul (Infinity s) (Finite m k) =
     (if m = 0 then NaN else Infinity (s \<noteq> (m < 0)))"
| "float_mul (Finite m k) (Infinity s) =
     (if m = 0 then NaN else Infinity (s \<noteq> (m < 0)))"
| "float_mul (Infinity s1) (Infinity s2) = Infinity (s1 \<noteq> s2)"
| "float_mul NaN y = NaN"
| "float_mul x NaN = NaN"

text \<open>\<open>i * x\<close> for an integer \<open>i\<close> and a float \<open>x\<close>.\<close>

definition py_mul_int_float :: "int \<Rightarrow> pyfloat \<Rightarrow> exn + pyfloat" where
  "py_mul_int_float i x =
     (case py_float_of_int i of Inl e \<Rightarrow> Inl e | Inr y \<Rightarrow> Inr (float_mul y x))"

text \<open>\<open>int(x)\<close>: truncation towards zero.\<close>

fun py_int_of_float :: "pyfloat \<Rightarrow> exn + int" where
  "py_int_of_float (Finite m k) =
     Inr (if 0 \<le> k then m * 2 ^ nat k else sgn m * (\<bar>m\<bar> div 2 ^ nat (- k)))"
| "py_int_of_float (Infinity s) = Inl (OverflowError ''cannot convert float infinity to integer'')"
| "py_int_of_float NaN = Inl (ValueError ''cannot convert float NaN to integer'')"

text \<open>
  Lines 13 to 15 of \<open>compress_and_create_thumbnail\<close>:
  \<open>aspect_ratio = original_height / original_width\<close>,
  \<open>new_height = int(width * aspect_ratio)\<close>.
\<close>

definition new_height_of :: "int \<Rightarrow> int \<times> int \<Rightarrow> exn + int" where
  "new_height_of width sz =
     (let original_width = fst sz; original_height = snd sz
      in case py_truediv original_height original_width of Inl e \<Rightarrow> Inl e | Inr aspect_ratio \<Rightarrow>
        (case py_mul_int_float width aspect_ratio of Inl e \<Rightarrow> Inl e | Inr p \<Rightarrow>
         py_int_of_float p))"

section \<open>Images, storage and the scratch file system\<close>

text \<open>
  Of a Pillow image the code reads \<open>size\<close> (width, height) and \<open>mode\<close>. A saved file keeps
  the image together with the arguments of \<open>save\<close>. The bytes of an object that this
  program did not write are opaque; what \<open>Image.open\<close> makes of them is given by the
  environment.
\<close>

record image =
  img_size :: "int \<times> int"
  img_mode :: string

record encoded =
  enc_image :: image
  enc_format :: string
  enc_quality :: "int option"
  enc_optimize :: bool

datatype content = SourceBytes nat | Encoded encoded

text \<open>
  The calls on the storage client, in the order they are made. \<open>download_file\<close> is logged
  with the bucket value as it came out of the event.
\<close>

datatype s3_call =
    S3Download pyval string string
  | S3Head string string
  | S3Upload string string string

text \<open>
  The state an invocation works on: the objects in storage by bucket and key, the local
  files by path, the local directories, and the log of storage calls.
\<close>

record world =
  s3_objects :: "string \<times> string \<rightharpoonup> content"
  files :: "(string \<times> content) list"
  dirs :: "string list"
  calls :: "s3_call list"

text \<open>
  What the collaborators do in one invocation: the URL decoder of the standard library,
  the random UUID, the directory \<open>tempfile.mkdtemp\<close> creates (or its failure), the exception
  the storage client raises for a bucket argument that is not a string, the failures of the
  three storage operations by bucket and key (\<open>None\<close>: the operation goes through), the
  decoder of Pillow, what makes \<open>resize\<close> fail on arguments it accepts (memory running out,
  say) by image and target size, and the failure of \<open>save\<close> by image and format.
\<close>

record env =
  unquote_plus :: "string \<Rightarrow> string"
  uuid4 :: "128 word"
  mkdtemp :: "exn + string"
  invalid_bucket :: "pyval \<Rightarrow> exn"
  head_fault :: "string \<Rightarrow> string \<Rightarrow> exn option"
  download_fault :: "string \<Rightarrow> string \<Rightarrow> exn option"
  upload_fault :: "string \<Rightarrow> string \<Rightarrow> exn option"
  image_open :: "content \<Rightarrow> exn + image"
  resize_fault :: "image \<Rightarrow> int \<times> int \<Rightarrow> exn option"
  save_fault :: "image \<Rightarrow> string \<Rightarrow> exn option"

definition not_found :: exn where
  "not_found = ClientError ''404'' ''An error occurred (404) when calling the HeadObject operation: Not Found''"

definition head_object :: "env \<Rightarrow> world \<Rightarrow> string \<Rightarrow> string \<Rightarrow> (exn + unit) \<times> world" where
  "head_object E w Bucket Key =
     (let w' = w\<lparr>calls := calls w @ [S3Head Bucket Key]\<rparr>
      in case head_fault E Bucket Key of
           Some e \<Rightarrow> (Inl e, w')
         | None \<Rightarrow>
             (case s3_objects w (Bucket, Key) of
                None \<Rightarrow> (Inl not_found, w')
              | Some c \<Rightarrow> (Inr (), w')))"

definition download_file :: "env \<Rightarrow> world \<Rightarrow> pyval \<Rightarrow> string \<Rightarrow> string \<Rightarrow> (exn + unit) \<times> world" where
  "download_file E w Bucket Key Filename =
     (let w' = w\<lparr>calls := calls w @ [S3Download Bucket Key Filename]\<rparr>
      in case Bucket of
           PStr b \<Rightarrow>
             (case download_fault E b Key of
                Some e \<Rightarrow> (Inl e, w')
              | None \<Rightarrow>
                  (case s3_objects w (b, Key) of
                     None \<Rightarrow> (Inl not_found, w')
                   | Some c \<Rightarrow> (Inr (), w'\<lparr>files := AList.update Filename c (files w')\<rparr>)))
         | _ \<Rightarrow> (Inl (invalid_bucket E Bucket), w'))"

definition upload_file :: "env \<Rightarrow> world \<Rightarrow> string \<Rightarrow> string \<Rightarrow> string \<Rightarrow> (exn + unit) \<times> world" where
  "upload_file E w Filename Bucket Key =
     (let w' = w\<lparr>calls := calls w @ [S3Upload Filename Bucket Key]\<rparr>
      in case map_of (files w) Filename of
           None \<Rightarrow> (Inl (OSError ''No such file or directory''), w')
         | Some c \<Rightarrow>
             (case upload_fault E Bucket Key of
                Some e \<Rightarrow> (Inl e, w')
              | None \<Rightarrow> (Inr (), w'\<lparr>s3_objects := (s3_objects w')((Bucket, Key) \<mapsto> c)\<rparr>)))"

text \<open>\<open>os.path.exists\<close>, \<open>os.remove\<close> and \<open>os.rmdir\<close> on the scratch file system.\<close>

definition path_exists :: "world \<Rightarrow> string \<Rightarrow> bool" where
  "path_exists w p = (map_of (files w) p \<noteq> None \<or> p \<in> set (dirs w))"

definition remove_file :: "world \<Rightarrow> string \<Rightarrow> (exn + unit) \<times> world" where
  "remove_file w p =
     (if map_of (files w) p = None then (Inl (OSError ''No such file or directory''), w)
      else (Inr (), w\<lparr>files := AList.delete p (files w)\<rparr>))"

definition in_dir :: "string \<Rightarrow> string \<Rightarrow> bool" where
  "in_dir d p = (\<exists>name \<in> set (tl (suffixes p)). name \<noteq> [] \<and> CHR ''/'' \<notin> set name \<and> path_join d name = p)"

definition rmdir :: "world \<Rightarrow> string \<Rightarrow> (exn + unit) \<times> world" where
  "rmdir w d =
     (if d \<notin> set (dirs w) then (Inl (OSError ''No such file or directory''), w)
      else if list_ex (\<lambda>(p, c). in_dir d p) (files w) then (Inl (OSError ''Directory not empty''), w)
      else (Inr (), w\<lparr>dirs := removeAll d (dirs w)\<rparr>))"

section \<open>The transform\<close>

text \<open>
  An argument that Pillow's C code reads as a C \<open>int\<close>: outside the 32-bit range the
  call raises \<open>OverflowError\<close>.
\<close>

definition c_int_arg :: "int \<Rightarrow> exn option" where
  "c_int_arg v =
     (if 2 ^ 31 - 1 < v then Some (OverflowError ''signed integer is greater than maximum'')
      else if v < - (2 ^ 31) then Some (OverflowError ''signed integer is less than minimum'')
      else None)"

text \<open>
  \<open>img.resize(size, LANCZOS)\<close>: a copy when the size does not change; otherwise the two
  sides are read as C integers, a side below 1 is a \<open>ValueError\<close>, and the result is an
  image of the target size in the same mode.
\<close>

definition resize :: "env \<Rightarrow> image \<Rightarrow> int \<times> int \<Rightarrow> exn + image" where
  "resize E img sz =
     (if img_size img = sz then Inr img
      else case c_int_arg (fst sz) of Some e \<Rightarrow> Inl e | None \<Rightarrow>
          (case c_int_arg (snd sz) of Some e \<Rightarrow> Inl e | None \<Rightarrow>
           if fst sz < 1 \<or> snd sz < 1 then Inl (ValueError ''height and width must be > 0'')
           else (case resize_fault E img sz of Some e \<Rightarrow> Inl e
                 | None \<Rightarrow> Inr (img\<lparr>img_size := sz\<rparr>))))"

definition convert :: "image \<Rightarrow> string \<Rightarrow> image" where
  "convert img m = img\<lparr>img_mode := m\<rparr>"

definition save :: "env \<Rightarrow> world \<Rightarrow> image \<Rightarrow> string \<Rightarrow> string \<Rightarrow> int option \<Rightarrow> bool \<Rightarrow> (exn + unit) \<times> world" where
  "save E w img path fmt quality optimize =
     (case save_fault E img fmt of
        Some e \<Rightarrow> (Inl e, w)
      | None \<Rightarrow>
          (Inr (), w\<lparr>files := AList.update path
             (Encoded \<lparr>enc_image = img, enc_format = fmt, enc_quality = quality, enc_optimize = optimize\<rparr>)
             (files w)\<rparr>))"

text \<open>\<open>compress_and_create_thumbnail\<close>; the handler calls it with the default \<open>quality=70\<close>.\<close>

definition compress_and_create_thumbnail ::
  "env \<Rightarrow> world \<Rightarrow> string \<Rightarrow> string \<Rightarrow> int \<Rightarrow> string \<Rightarrow> int \<Rightarrow> (exn + unit) \<times> world" where
  "compress_and_create_thumbnail E w image_path output_path width original_ext quality =
     (case map_of (files w) image_path of
        None \<Rightarrow> (Inl (OSError ''No such file or directory''), w)
      | Some c \<Rightarrow>
     (case image_open E c of Inl e \<Rightarrow> (Inl e, w) | Inr img \<Rightarrow>
     (case new_height_of width (img_size img) of Inl e \<Rightarrow> (Inl e, w) | Inr new_height \<Rightarrow>
     (case resize E img (width, new_height) of Inl e \<Rightarrow> (Inl e, w) | Inr resized_img \<Rightarrow>
        if lower original_ext = ''.png''
        then save E w resized_img output_path ''PNG'' None True
        else
          let resized_img' =
                (if img_mode resized_img \<in> set [''RGBA'', ''P''] then convert resized_img ''RGB''
                 else resized_img)
          in save E w resized_img' output_path ''JPEG'' (Some quality) True))))"

definition default_quality :: int where
  "default_quality = 70"

section \<open>The handler\<close>

record summary =
  original_file :: string
  processed_files :: "string list"
  original_filename :: string
  sanitized_filename :: string

text \<open>
  The body of a response is a text, or the summary dictionary (which the source renders
  with \<open>str\<close>).
\<close>

datatype body = Text string | Summary summary

record response =
  statusCode :: int
  body :: body

datatype outcome = Raised exn | Returned response

text \<open>
  One pass of the loop over the sizes (lines 74 to 96), from the state and the list of
  processed locations to the new ones. \<open>continue\<close> ends the pass with the list unchanged;
  an exception ends it with the state reached.
\<close>

definition loop_body ::
  "env \<Rightarrow> string \<Rightarrow> string \<Rightarrow> string \<Rightarrow> string \<Rightarrow> string \<Rightarrow> string \<Rightarrow>
   int \<Rightarrow> world \<Rightarrow> string list \<Rightarrow> (exn + string list) \<times> world" where
  "loop_body E bucket_name temp_dir local_input_path base_file_name save_ext file_ext
     sz w processed =
     (let output_file_name = output_file_name_of sz base_file_name save_ext;
          local_output_path = path_join temp_dir output_file_name;
          s3_key = s3_key_of sz base_file_name save_ext
      in case head_object E w bucket_name s3_key of
           (Inr u, w1) \<Rightarrow> (Inr processed, w1)
         | (Inl e, w1) \<Rightarrow>
             if (case e of ClientError code m \<Rightarrow> code \<noteq> ''404'' | _ \<Rightarrow> True) then (Inl e, w1)
             else
              (case compress_and_create_thumbnail E w1 local_input_path local_output_path sz file_ext
                      default_quality of
                 (Inl e, w2) \<Rightarrow> (Inl e, w2)
               | (Inr u, w2) \<Rightarrow>
              (case upload_file E w2 local_output_path bucket_name s3_key of
                 (Inl e, w3) \<Rightarrow> (Inl e, w3)
               | (Inr u, w3) \<Rightarrow>
                 let processed' = processed @ [''s3://'' @ bucket_name @ ''/'' @ s3_key] in
                (case (if path_exists w3 local_output_path then remove_file w3 local_output_path
                       else (Inr (), w3)) of
                   (Inl e, w4) \<Rightarrow> (Inl e, w4)
                 | (Inr u, w4) \<Rightarrow> (Inr processed', w4)))))"

text \<open>The loop \<open>for size in sizes\<close> (line 73).\<close>

fun process_sizes ::
  "env \<Rightarrow> string \<Rightarrow> string \<Rightarrow> string \<Rightarrow> string \<Rightarrow> string \<Rightarrow> string \<Rightarrow>
   int list \<Rightarrow> world \<Rightarrow> string list \<Rightarrow> (exn + string list) \<times> world" where
  "process_sizes E bucket_name temp_dir local_input_path base_file_name save_ext file_ext
     [] w processed = (Inr processed, w)"
| "process_sizes E bucket_name temp_dir local_input_path base_file_name save_ext file_ext
     (sz # rest) w processed =
     (case loop_body E bucket_name temp_dir local_input_path base_file_name save_ext file_ext
             sz w processed of
        (Inl e, w') \<Rightarrow> (Inl e, w')
      | (Inr processed', w') \<Rightarrow>
          process_sizes E bucket_name temp_dir local_input_path base_file_name save_ext file_ext
            rest w' processed')"

text \<open>The body of the \<open>try\<close> statement (lines 67 to 119).\<close>

definition try_body ::
  "env \<Rightarrow> world \<Rightarrow> pyval \<Rightarrow> string \<Rightarrow> string \<Rightarrow> string \<Rightarrow> string \<Rightarrow> string \<Rightarrow> string \<Rightarrow> string \<Rightarrow>
   (exn + summary) \<times> world" where
  "try_body E w bucket_name object_key temp_dir local_input_path file_name base_file_name save_ext
     file_ext =
     (case download_file E w bucket_name object_key local_input_path of
        (Inl e, w1) \<Rightarrow> (Inl e, w1)
      | (Inr u, w1) \<Rightarrow>
     (case bucket_name of
        PStr b \<Rightarrow>
          (case process_sizes E b temp_dir local_input_path base_file_name save_ext file_ext
                  sizes w1 [] of
             (Inl e, w2) \<Rightarrow> (Inl e, w2)
           | (Inr processed, w2) \<Rightarrow>
          (case (if path_exists w2 local_input_path then remove_file w2 local_input_path
                 else (Inr (), w2)) of
             (Inl e, w3) \<Rightarrow> (Inl e, w3)
           | (Inr u, w3) \<Rightarrow>
               let w4 = snd (rmdir w3 temp_dir)
               in (Inr \<lparr>original_file = ''s3://'' @ b @ ''/'' @ object_key,
                        processed_files = processed,
                        original_filename = file_name,
                        sanitized_filename = base_file_name @ save_ext\<rparr>, w4)))
      | _ \<Rightarrow> (Inl (invalid_bucket E bucket_name), w1)))"

text \<open>\<open>lambda_handler\<close>. Printing is not modelled.\<close>

definition lambda_handler :: "env \<Rightarrow> world \<Rightarrow> pyval \<Rightarrow> outcome \<times> world" where
  "lambda_handler E w event =
     (case s3_record_field event ''bucket'' ''name'' of Inl e \<Rightarrow> (Raised e, w) | Inr bucket_name \<Rightarrow>
     (case s3_record_field event ''object'' ''key'' of Inl e \<Rightarrow> (Raised e, w) | Inr k \<Rightarrow>
     (case k of
        PStr quoted \<Rightarrow>
         (let object_key = unquote_plus E quoted in
          if \<not> startswith object_key ''source_image/''
          then (Returned \<lparr>statusCode = 200, body = Text (''Skipped: '' @ object_key)\<rparr>, w)
          else
            let file_ext = file_ext_of object_key in
            if file_ext \<notin> set supported_exts
            then (Returned \<lparr>statusCode = 200, body = Text (''Unsupported file type: '' @ file_ext)\<rparr>, w)
            else
              let file_name = basename object_key;
                  base_file_name = base_file_name_of object_key (uuid4 E);
                  save_ext = save_ext_of file_ext
              in case mkdtemp E of
                   Inl e \<Rightarrow> (Raised e, w)
                 | Inr temp_dir \<Rightarrow>
                     let w0 = w\<lparr>dirs := temp_dir # dirs w\<rparr>;
                         local_input_path = path_join temp_dir file_name
                     in (case try_body E w0 bucket_name object_key temp_dir local_input_path
                                file_name base_file_name save_ext file_ext of
                           (Inl e, w') \<Rightarrow> (Returned \<lparr>statusCode = 500, body = Text (str_exn e)\<rparr>, w')
                         | (Inr r, w') \<Rightarrow> (Returned \<lparr>statusCode = 200, body = Summary r\<rparr>, w')))
      | _ \<Rightarrow> (Raised (AttributeError ''object has no attribute 'replace' ''), w))))"

section \<open>Notions the statements use\<close>

text \<open>
  The bucket value and the decoded object key of an event, where the event has them; the
  decoded key exists only for a key that is a string.
\<close>

definition event_bucket :: "pyval \<Rightarrow> pyval option" where
  "event_bucket event =
     (case s3_record_field event ''bucket'' ''name'' of Inl e \<Rightarrow> None | Inr b \<Rightarrow> Some b)"

definition event_key :: "env \<Rightarrow> pyval \<Rightarrow> string option" where
  "event_key E event =
     (case s3_record_field event ''object'' ''key'' of
        Inr (PStr quoted) \<Rightarrow> Some (unquote_plus E quoted)
      | _ \<Rightarrow> None)"

text \<open>The storage calls an invocation adds to the log, and two kinds of them.\<close>

definition issued :: "world \<Rightarrow> world \<Rightarrow> s3_call list" where
  "issued w w' = drop (length (calls w)) (calls w')"

fun is_download :: "s3_call \<Rightarrow> bool" where
  "is_download (S3Download b k f) = True"
| "is_download c = False"

fun is_upload :: "s3_call \<Rightarrow> bool" where
  "is_upload (S3Upload f b k) = True"
| "is_upload c = False"

text \<open>The location string recorded for a size (line 90).\<close>

definition location_of :: "string \<Rightarrow> string \<Rightarrow> string \<Rightarrow> int \<Rightarrow> string" where
  "location_of b base_file_name save_ext sz = ''s3://'' @ b @ ''/'' @ s3_key_of sz base_file_name save_ext"

text \<open>
  The height as the specification words it, \<open>round(w * sourceHeight / sourceWidth)\<close>, on
  exact rationals; \<open>py_round\<close> is Python's \<open>round\<close>, which takes a tie to the even integer.
\<close>

definition py_round :: "rat \<Rightarrow> int" where
  "py_round x =
     (let f = \<lfloor>x\<rfloor>; r = x - of_int f
      in if r < 1 / 2 then f else if 1 / 2 < r then f + 1 else if even f then f else f + 1)"

definition spec_new_height :: "int \<Rightarrow> int \<Rightarrow> int \<Rightarrow> int" where
  "spec_new_height w sourceWidth sourceHeight =
     py_round (of_int w * of_int sourceHeight / of_int sourceWidth)"

text \<open>
  The output key as the specification lays it out, from the decoded object key, the
  token and the width in decimal digits.
\<close>

definition spec_sanitized_base :: "string \<Rightarrow> string" where
  "spec_sanitized_base object_key =
     map (\<lambda>c. if c = CHR '' '' \<or> c = CHR ''('' \<or> c = CHR '')'' then CHR ''_'' else c)
       (fst (splitext (basename object_key)))"

definition spec_ext :: "string \<Rightarrow> string" where
  "spec_ext object_key = (if lower (snd (splitext object_key)) = ''.png'' then ''.png'' else ''.jpg'')"

definition spec_output_key :: "string \<Rightarrow> string \<Rightarrow> string \<Rightarrow> string \<Rightarrow> string" where
  "spec_output_key sanitizedBase token width ext =
     ''processed_image/'' @ sanitizedBase @ ''_'' @ token @ ''/'' @
       width @ ''_'' @ sanitizedBase @ ''_'' @ token @ ext"

text \<open>
  The storage calls of one pass of the loop (lines 74 to 88) for a size: \<open>head_object\<close>
  under the key of the size and, in a pass that gets there, \<open>upload_file\<close> of the local
  output of the size under the same key.
\<close>

definition pass_calls :: "string \<Rightarrow> string \<Rightarrow> string \<Rightarrow> string \<Rightarrow> int \<times> bool \<Rightarrow> s3_call list" where
  "pass_calls b td base ext p =
     S3Head b (s3_key_of (fst p) base ext) #
     (if snd p
      then [S3Upload (path_join td (output_file_name_of (fst p) base ext)) b (s3_key_of (fst p) base ext)]
      else [])"

text \<open>
  The same in the layout of the specification, for a width in decimal digits: the key is
  the output key of the width, the local file is
  \<open>{width}_{sanitizedBase}_{token}{ext}\<close> in the scratch directory.
\<close>

definition spec_pass_calls ::
  "string \<Rightarrow> string \<Rightarrow> string \<Rightarrow> string \<Rightarrow> string \<Rightarrow> string \<times> bool \<Rightarrow> s3_call list" where
  "spec_pass_calls b temp_dir sanitizedBase token ext p =
     S3Head b (spec_output_key sanitizedBase token (fst p) ext) #
     (if snd p
      then [S3Upload (path_join temp_dir (fst p @ ''_'' @ sanitizedBase @ ''_'' @ token @ ext)) b
              (spec_output_key sanitizedBase token (fst p) ext)]
      else [])"

text \<open>A call the loop may issue for one of the sizes.\<close>

definition loop_call :: "string \<Rightarrow> string \<Rightarrow> string \<Rightarrow> string \<Rightarrow> int list \<Rightarrow> s3_call \<Rightarrow> bool" where
  "loop_call b td base ext szs c =
     list_ex (\<lambda>sz. c = S3Head b (s3_key_of sz base ext) \<or>
                  c = S3Upload (path_join td (output_file_name_of sz base ext)) b (s3_key_of sz base ext)) szs"

text \<open>The "not found" answer of an existence check: a \<open>ClientError\<close> with code 404.\<close>

fun is_not_found :: "exn \<Rightarrow> bool" where
  "is_not_found (ClientError code m) = (code = ''404'')"
| "is_not_found e = False"

text \<open>
  The structure the handler expects of an event, as a shape: a dictionary whose
  \<open>Records\<close> is a list that starts with a dictionary, whose \<open>s3\<close> is a dictionary, whose
  entry \<open>a\<close> is a dictionary that has the key \<open>b\<close>.
\<close>

definition has_s3_field :: "pyval \<Rightarrow> string \<Rightarrow> string \<Rightarrow> bool" where
  "has_s3_field event a b =
     (case event of
        PDict items \<Rightarrow>
          (case map_of items ''Records'' of
             Some (PList (PDict first_record # others)) \<Rightarrow>
               (case map_of first_record ''s3'' of
                  Some (PDict s3) \<Rightarrow>
                    (case map_of s3 a of
                       Some (PDict entry) \<Rightarrow> map_of entry b \<noteq> None
                     | _ \<Rightarrow> False)
                | _ \<Rightarrow> False)
           | _ \<Rightarrow> False)
      | _ \<Rightarrow> False)"

subsection \<open>A sample invocation\<close>

text \<open>
  An S3 notification for one object, an environment in which nothing fails and the keys
  carry no percent escapes, and a bucket that holds one source image of 1000 by 999 pixels.
\<close>

definition s3_event :: "string \<Rightarrow> string \<Rightarrow> pyval" where
  "s3_event b k =
     PDict [(''Records'', PList [PDict [(''s3'',
       PDict [(''bucket'', PDict [(''name'', PStr b)]), (''object'', PDict [(''key'', PStr k)])])]])]"

definition sample_env :: env where
  "sample_env =
     \<lparr>unquote_plus = replace_char CHR ''+'' CHR '' '',
      uuid4 = 0xdeadbeef4b1d4c0a9f3e5a6b7c8d9e0f,
      mkdtemp = Inr ''/tmp/tmpk3x9'',
      invalid_bucket = (\<lambda>v. OtherException ''Invalid bucket name''),
      head_fault = (\<lambda>b k. None),
      download_fault = (\<lambda>b k. None),
      upload_fault = (\<lambda>b k. None),
      image_open = (\<lambda>c. case c of
                          SourceBytes n \<Rightarrow> Inr \<lparr>img_size = (1000, 999), img_mode = ''RGBA''\<rparr>
                        | Encoded x \<Rightarrow> Inr (enc_image x)),
      resize_fault = (\<lambda>i s. None),
      save_fault = (\<lambda>i f. None)\<rparr>"

definition sample_world :: world where
  "sample_world =
     \<lparr>s3_objects = [(''bkt'', ''source_image/My Photo (1).png'') \<mapsto> SourceBytes 0],
      files = [], dirs = [], calls = []\<rparr>"

definition sample_event :: pyval where
  "sample_event = s3_event ''bkt'' ''source_image/My+Photo+(1).png''"

text \<open>The same bucket after an earlier run under the same name: all four outputs exist.\<close>

definition sample_output_key :: "string \<Rightarrow> string" where
  "sample_output_key d = ''processed_image/My_Photo__1__deadbeef/'' @ d @ ''_My_Photo__1__deadbeef.png''"

definition processed_world :: world where
  "processed_world =
     \<lparr>s3_objects =
        [(''bkt'', ''source_image/My Photo (1).png'') \<mapsto> SourceBytes 0,
         (''bkt'', sample_output_key ''200'') \<mapsto> SourceBytes 1,
         (''bkt'', sample_output_key ''300'') \<mapsto> SourceBytes 2,
         (''bkt'', sample_output_key ''500'') \<mapsto> SourceBytes 3,
         (''bkt'', sample_output_key ''1000'') \<mapsto> SourceBytes 4],
      files = [], dirs = [], calls = []\<rparr>"

text \<open>The sample bucket with the 300 pixel output of an earlier run in place.\<close>

definition partly_processed_world :: world where
  "partly_processed_world =
     \<lparr>s3_objects =
        [(''bkt'', ''source_image/My Photo (1).png'') \<mapsto> SourceBytes 0,
         (''bkt'', sample_output_key ''300'') \<mapsto> SourceBytes 2],
      files = [], dirs = [], calls = []\<rparr>"

text \<open>An environment in which the downloaded bytes are not an image.\<close>

definition corrupt_env :: env where
  "corrupt_env = sample_env\<lparr>image_open := (\<lambda>c. Inl (OSError ''cannot identify image file''))\<rparr>"

text \<open>
  An environment in which the existence check of the 300 pixel output is refused, and the
  states the sample invocation passes through there: after the download, after the pass
  for 200, after the refused check.
\<close>

definition forbidden_env :: env where
  "forbidden_env = sample_env\<lparr>head_fault :=
     (\<lambda>b k. if k = sample_output_key ''300''
             then Some (ClientError ''403'' ''An error occurred (403) when calling the HeadObject operation: Forbidden'')
             else None)\<rparr>"

definition fetched_world :: world where
  "fetched_world =
     snd (download_file sample_env (sample_world\<lparr>dirs := [''/tmp/tmpk3x9'']\<rparr>) (PStr ''bkt'')
            ''source_image/My Photo (1).png'' ''/tmp/tmpk3x9/My Photo (1).png'')"

definition after_200_world :: world where
  "after_200_world =
     snd (process_sizes forbidden_env ''bkt'' ''/tmp/tmpk3x9'' ''/tmp/tmpk3x9/My Photo (1).png''
            ''My_Photo__1__deadbeef'' ''.png'' ''.png'' [200] fetched_world [])"

definition refused_world :: world where
  "refused_world = snd (head_object forbidden_env after_200_world ''bkt'' (sample_output_key ''300''))"

text \<open>An environment in which the source decodes to a panorama of 1000 by 1 pixels.\<close>

definition wide_env :: env where
  "wide_env = sample_env\<lparr>image_open := (\<lambda>c. Inr \<lparr>img_size = (1000, 1), img_mode = ''RGB''\<rparr>)\<rparr>"

text \<open>An environment in which the scratch directory cannot be created.\<close>

definition full_disk_env :: env where
  "full_disk_env = sample_env\<lparr>mkdtemp := Inl (OSError ''No space left on device'')\<rparr>"

text \<open>An environment in which the source decodes to an image of 1000 by 4600 pixels.\<close>

definition tall_env :: env where
  "tall_env = sample_env\<lparr>image_open := (\<lambda>c. Inr \<lparr>img_size = (1000, 4600), img_mode = ''RGB''\<rparr>)\<rparr>"

section \<open>Properties of the handler\<close>

subsection \<open>The three ways through the handler\<close>

lemma lambda_handler_skip:
  assumes "event_bucket event = Some bucket_name" and "event_key E event = Some object_key"
    and "\<not> startswith object_key ''source_image/'' \<or> file_ext_of object_key \<notin> set supported_exts"
  shows "lambda_handler E w event =
           (Returned \<lparr>statusCode = 200,
              body = Text (if \<not> startswith object_key ''source_image/'' then ''Skipped: '' @ object_key
                           else ''Unsupported file type: '' @ file_ext_of object_key)\<rparr>, w)"
  using assms
  by (auto simp: lambda_handler_def event_bucket_def event_key_def Let_def
           split: sum.splits pyval.splits)

lemma lambda_handler_accepted:
  assumes "event_bucket event = Some bucket_name" and "event_key E event = Some object_key"
    and "startswith object_key ''source_image/''"
    and "file_ext_of object_key \<in> set supported_exts"
    and "mkdtemp E = Inr temp_dir"
  shows "lambda_handler E w event =
           (case try_body E (w\<lparr>dirs := temp_dir # dirs w\<rparr>) bucket_name object_key temp_dir
                   (path_join temp_dir (basename object_key)) (basename object_key)
                   (base_file_name_of object_key (uuid4 E))
                   (save_ext_of (file_ext_of object_key)) (file_ext_of object_key) of
              (Inl e, w') \<Rightarrow> (Returned \<lparr>statusCode = 500, body = Text (str_exn e)\<rparr>, w')
            | (Inr r, w') \<Rightarrow> (Returned \<lparr>statusCode = 200, body = Summary r\<rparr>, w'))"
  using assms
  by (auto simp: lambda_handler_def event_bucket_def event_key_def Let_def
           split: sum.splits pyval.splits)

lemma lambda_handler_500:
  assumes "fst (lambda_handler E w event) = Returned r" and "statusCode r = 500"
  shows "\<exists>b k. event_bucket event = Some b \<and> event_key E event = Some k \<and>
           startswith k ''source_image/'' \<and> file_ext_of k \<in> set supported_exts"
  using assms
  by (auto simp: lambda_handler_def event_bucket_def event_key_def Let_def
           split: sum.splits pyval.splits if_splits prod.splits)

lemma sample_event_bucket: "event_bucket sample_event = Some (PStr ''bkt'')"
  by code_simp

lemma sample_event_key: "event_key sample_env sample_event = Some ''source_image/My Photo (1).png''"
  by code_simp

lemma sample_key_prefix: "startswith ''source_image/My Photo (1).png'' ''source_image/''"
  by code_simp

lemma sample_key_ext: "file_ext_of ''source_image/My Photo (1).png'' \<in> set supported_exts"
  by code_simp

lemma sample_mkdtemp: "mkdtemp sample_env = Inr ''/tmp/tmpk3x9''"
  by (simp add: sample_env_def)

subsection \<open>Ingress filtering\<close>

text \<open>
  C6. An event whose decoded key does not start with \<open>source_image/\<close>, or whose lowercased
  extension is none of .jpg, .jpeg, .png, gets status 200 with a text body that names the
  reason; no exception is raised, and the state is the one the handler started in: no
  storage call was made, no object or file written.
\<close>

theorem ingress_filter_skips:
  assumes "event_bucket event = Some bucket_name" and "event_key E event = Some object_key"
    and "\<not> startswith object_key ''source_image/'' \<or>
         lower (snd (splitext object_key)) \<notin> {''.jpg'', ''.jpeg'', ''.png''}"
  shows "lambda_handler E w event =
           (Returned \<lparr>statusCode = 200,
              body = Text (if \<not> startswith object_key ''source_image/'' then ''Skipped: '' @ object_key
                           else ''Unsupported file type: '' @ lower (snd (splitext object_key)))\<rparr>, w)"
  using lambda_handler_skip [OF assms(1,2), of w] assms(3)
  by (simp add: file_ext_of_def supported_exts_def)

theorem ingress_filter_skips_witness:
  "event_bucket (s3_event ''bkt'' ''source_image/x.gif'') = Some (PStr ''bkt'') \<and>
   event_key sample_env (s3_event ''bkt'' ''source_image/x.gif'') = Some ''source_image/x.gif'' \<and>
   lower (snd (splitext ''source_image/x.gif'')) \<notin> {''.jpg'', ''.jpeg'', ''.png''} \<and>
   lambda_handler sample_env sample_world (s3_event ''bkt'' ''source_image/x.gif'') =
     (Returned \<lparr>statusCode = 200, body = Text ''Unsupported file type: .gif''\<rparr>, sample_world) \<and>
   event_bucket (s3_event ''bkt'' ''archive/doc.jpg'') = Some (PStr ''bkt'') \<and>
   event_key sample_env (s3_event ''bkt'' ''archive/doc.jpg'') = Some ''archive/doc.jpg'' \<and>
   \<not> startswith ''archive/doc.jpg'' ''source_image/'' \<and>
   lambda_handler sample_env sample_world (s3_event ''bkt'' ''archive/doc.jpg'') =
     (Returned \<lparr>statusCode = 200, body = Text ''Skipped: archive/doc.jpg''\<rparr>, sample_world)"
proof -
  have h1: "event_bucket (s3_event ''bkt'' ''source_image/x.gif'') = Some (PStr ''bkt'')"
    by code_simp
  have h2: "event_key sample_env (s3_event ''bkt'' ''source_image/x.gif'') = Some ''source_image/x.gif''"
    by code_simp
  have p: "startswith ''source_image/x.gif'' ''source_image/''"
    by code_simp
  have x: "lower (snd (splitext ''source_image/x.gif'')) = ''.gif''"
    by code_simp
  have h3: "\<not> startswith ''source_image/x.gif'' ''source_image/'' \<or>
    lower (snd (splitext ''source_image/x.gif'')) \<notin> {''.jpg'', ''.jpeg'', ''.png''}"
    by (simp add: x)
  have g1: "event_bucket (s3_event ''bkt'' ''archive/doc.jpg'') = Some (PStr ''bkt'')"
    by code_simp
  have g2: "event_key sample_env (s3_event ''bkt'' ''archive/doc.jpg'') = Some ''archive/doc.jpg''"
    by code_simp
  have q: "\<not> startswith ''archive/doc.jpg'' ''source_image/''"
    by code_simp
  then have g3: "\<not> startswith ''archive/doc.jpg'' ''source_image/'' \<or>
    lower (snd (splitext ''archive/doc.jpg'')) \<notin> {''.jpg'', ''.jpeg'', ''.png''}" ..
  show ?thesis
    using ingress_filter_skips [OF h1 h2 h3, of sample_world]
      ingress_filter_skips [OF g1 g2 g3, of sample_world] h1 h2 h3 p x g1 g2 q
    by simp
qed

subsection \<open>Events without the expected structure\<close>



lemma subscript_key_Inr:
  "subscript_key v k = Inr x \<Longrightarrow> \<exists>kvs. v = PDict kvs \<and> map_of kvs k = Some x"
  by (cases v) (auto split: option.splits)

lemma subscript_0_Inr:
  "subscript_0 v = Inr x \<Longrightarrow> (\<exists>xs. v = PList (x # xs)) \<or> (\<exists>c cs. v = PStr (c # cs) \<and> x = PStr [c])"
proof (cases v)
  case (PList xs)
  assume "subscript_0 v = Inr x"
  with PList show ?thesis by (cases xs) auto
next
  case (PStr s)
  assume "subscript_0 v = Inr x"
  with PStr show ?thesis by (cases s) auto
qed auto

lemma s3_record_field_shape:
  assumes "s3_record_field event a b = Inr x"
  shows "has_s3_field event a b"
proof -
  from assms obtain recs where 1: "subscript_key event ''Records'' = Inr recs"
    by (auto simp: s3_record_field_def split: sum.splits)
  from assms 1 obtain r where 2: "subscript_0 recs = Inr r"
    by (auto simp: s3_record_field_def split: sum.splits)
  from assms 1 2 obtain s where 3: "subscript_key r ''s3'' = Inr s"
    by (auto simp: s3_record_field_def split: sum.splits)
  from assms 1 2 3 obtain y where 4: "subscript_key s a = Inr y"
    by (auto simp: s3_record_field_def split: sum.splits)
  from assms 1 2 3 4 have 5: "subscript_key y b = Inr x"
    by (simp add: s3_record_field_def)
  from subscript_key_Inr [OF 1] obtain items
    where top: "event = PDict items" "map_of items ''Records'' = Some recs" by blast
  from subscript_key_Inr [OF 3] obtain rec1
    where rec1: "r = PDict rec1" "map_of rec1 ''s3'' = Some s" by blast
  from subscript_0_Inr [OF 2] rec1(1) obtain others where recs: "recs = PList (PDict rec1 # others)"
    by auto
  from subscript_key_Inr [OF 4] obtain s3 where s3: "s = PDict s3" "map_of s3 a = Some y" by blast
  from subscript_key_Inr [OF 5] obtain entry
    where entry: "y = PDict entry" "map_of entry b = Some x" by blast
  from top rec1 recs s3 entry show ?thesis by (simp add: has_s3_field_def)
qed

text \<open>
  C10. The two subscript chains and the filter run before the \<open>try\<close> statement. An event
  that is not of the expected shape at \<open>Records[0].s3.bucket.name\<close> or at
  \<open>Records[0].s3.object.key\<close> makes the handler raise: it returns nothing, and the state is
  untouched. A response with status 500 comes only from an event that has both fields and
  passed the filter.
\<close>

theorem malformed_event_raises:
  "(\<not> has_s3_field event ''bucket'' ''name'' \<or> \<not> has_s3_field event ''object'' ''key''
      \<longrightarrow> (\<exists>e. lambda_handler E w event = (Raised e, w))) \<and>
   (\<forall>r. fst (lambda_handler E w event) = Returned r \<and> statusCode r = 500 \<longrightarrow>
      has_s3_field event ''bucket'' ''name'' \<and> has_s3_field event ''object'' ''key'' \<and>
      (\<exists>b k. event_bucket event = Some b \<and> event_key E event = Some k \<and>
         startswith k ''source_image/'' \<and> file_ext_of k \<in> set supported_exts))"
proof (intro conjI impI allI)
  assume a: "\<not> has_s3_field event ''bucket'' ''name'' \<or> \<not> has_s3_field event ''object'' ''key''"
  have "isl (s3_record_field event ''bucket'' ''name'') \<or> isl (s3_record_field event ''object'' ''key'')"
  proof (rule ccontr)
    assume "\<not> ?thesis"
    then obtain x y where "s3_record_field event ''bucket'' ''name'' = Inr x"
      "s3_record_field event ''object'' ''key'' = Inr y"
      by (cases "s3_record_field event ''bucket'' ''name''"; cases "s3_record_field event ''object'' ''key''")
        auto
    then have "has_s3_field event ''bucket'' ''name''" "has_s3_field event ''object'' ''key''"
      by (auto dest: s3_record_field_shape)
    with a show False by blast
  qed
  then show "\<exists>e. lambda_handler E w event = (Raised e, w)"
    by (auto simp: lambda_handler_def isl_def split: sum.splits)
next
  fix r
  assume r: "fst (lambda_handler E w event) = Returned r \<and> statusCode r = 500"
  then obtain b k where bk: "event_bucket event = Some b" "event_key E event = Some k"
    "startswith k ''source_image/''" "file_ext_of k \<in> set supported_exts"
    using lambda_handler_500 by blast
  from bk(1) obtain x where "s3_record_field event ''bucket'' ''name'' = Inr x"
    by (auto simp: event_bucket_def split: sum.splits)
  then show "has_s3_field event ''bucket'' ''name''" by (rule s3_record_field_shape)
  from bk(2) obtain y where "s3_record_field event ''object'' ''key'' = Inr y"
    by (auto simp: event_key_def split: sum.splits pyval.splits)
  then show "has_s3_field event ''object'' ''key''" by (rule s3_record_field_shape)
  from bk show "\<exists>b k. event_bucket event = Some b \<and> event_key E event = Some k \<and>
         startswith k ''source_image/'' \<and> file_ext_of k \<in> set supported_exts" by blast
qed

theorem malformed_event_raises_witness:
  "\<not> has_s3_field (PDict [(''Records'', PList [])]) ''bucket'' ''name'' \<and>
   lambda_handler sample_env sample_world (PDict [(''Records'', PList [])]) =
     (Raised (IndexError ''list index out of range''), sample_world) \<and>
   \<not> has_s3_field (s3_event ''bkt'' ''k'') ''object'' ''size'' \<and>
   has_s3_field sample_event ''object'' ''key'' \<and>
   fst (lambda_handler corrupt_env sample_world sample_event) =
     Returned \<lparr>statusCode = 500, body = Text ''cannot identify image file''\<rparr> \<and>
   statusCode \<lparr>statusCode = 500, body = Text ''cannot identify image file''\<rparr> = 500 \<and>
   has_s3_field sample_event ''bucket'' ''name'' \<and>
   (\<exists>b k. event_bucket sample_event = Some b \<and> event_key corrupt_env sample_event = Some k \<and>
      startswith k ''source_image/'' \<and> file_ext_of k \<in> set supported_exts)"
proof -
  have i: "\<not> has_s3_field (PDict [(''Records'', PList [])]) ''bucket'' ''name''"
    by code_simp
  have h: "s3_record_field (PDict [(''Records'', PList [])]) ''bucket'' ''name''
             = Inl (IndexError ''list index out of range'')"
    by code_simp
  from malformed_event_raises [of "PDict [(''Records'', PList [])]" sample_env sample_world] i
  obtain e where e: "lambda_handler sample_env sample_world (PDict [(''Records'', PList [])])
      = (Raised e, sample_world)"
    by blast
  moreover have "e = IndexError ''list index out of range''"
    using e h by (simp add: lambda_handler_def)
  ultimately have raised: "lambda_handler sample_env sample_world (PDict [(''Records'', PList [])]) =
     (Raised (IndexError ''list index out of range''), sample_world)" by simp
  have n: "\<not> has_s3_field (s3_event ''bkt'' ''k'') ''object'' ''size''"
    by code_simp
  have k: "has_s3_field sample_event ''object'' ''key''"
    by code_simp
  have f: "fst (lambda_handler corrupt_env sample_world sample_event) =
     Returned \<lparr>statusCode = 500, body = Text ''cannot identify image file''\<rparr>"
    by code_simp
  have s: "statusCode \<lparr>statusCode = 500, body = Text ''cannot identify image file''\<rparr> = 500"
    by simp
  from malformed_event_raises [of sample_event corrupt_env sample_world, THEN conjunct2,
      rule_format, OF conjI, OF f s]
  have c: "has_s3_field sample_event ''bucket'' ''name'' \<and> has_s3_field sample_event ''object'' ''key'' \<and>
      (\<exists>b k. event_bucket sample_event = Some b \<and> event_key corrupt_env sample_event = Some k \<and>
      startswith k ''source_image/'' \<and> file_ext_of k \<in> set supported_exts)" .
  from c have c1: "has_s3_field sample_event ''bucket'' ''name''" by (rule conjunct1)
  from c have c3: "\<exists>b k. event_bucket sample_event = Some b \<and> event_key corrupt_env sample_event = Some k \<and>
      startswith k ''source_image/'' \<and> file_ext_of k \<in> set supported_exts" by blast
  from i raised n k f s c1 c3 show ?thesis by (intro conjI)
qed

subsection \<open>The log of storage calls\<close>

lemma head_object_calls:
  "head_object E w b k = (r, w1) \<Longrightarrow> calls w1 = calls w @ [S3Head b k]"
  by (auto simp: head_object_def Let_def split: option.splits)

lemma save_calls: "save E w img path fmt q opt = (r, w1) \<Longrightarrow> calls w1 = calls w"
  by (auto simp: save_def split: option.splits)

lemma compress_calls:
  "compress_and_create_thumbnail E w ip op width ext q = (r, w1) \<Longrightarrow> calls w1 = calls w"
  by (auto simp: compress_and_create_thumbnail_def Let_def
           split: option.splits sum.splits if_splits dest: save_calls)

lemma upload_file_calls:
  "upload_file E w f b k = (r, w1) \<Longrightarrow> calls w1 = calls w @ [S3Upload f b k]"
  by (auto simp: upload_file_def Let_def split: option.splits)

lemma remove_file_calls: "remove_file w p = (r, w1) \<Longrightarrow> calls w1 = calls w"
  by (auto simp: remove_file_def split: if_splits)

lemma rmdir_calls: "calls (snd (rmdir w p)) = calls w"
  by (simp add: rmdir_def)

lemma download_file_calls:
  "download_file E w b k f = (r, w1) \<Longrightarrow> calls w1 = calls w @ [S3Download b k f]"
  by (auto simp: download_file_def Let_def split: option.splits pyval.splits)

lemma loop_body_calls:
  assumes "loop_body E b td lip base ext fext sz w acc = (r, w')"
  shows "calls w' = calls w @ [S3Head b (s3_key_of sz base ext)] \<or>
         calls w' = calls w @ [S3Head b (s3_key_of sz base ext),
            S3Upload (path_join td (output_file_name_of sz base ext)) b (s3_key_of sz base ext)]"
  using assms
  by (auto simp: loop_body_def Let_def split: prod.splits sum.splits if_splits
           dest!: head_object_calls compress_calls upload_file_calls remove_file_calls)

lemma loop_body_processed:
  assumes "loop_body E b td lip base ext fext sz w acc = (Inr ps, w')"
  shows "ps = acc \<or> ps = acc @ [location_of b base ext sz]"
  using assms
  by (auto simp: loop_body_def Let_def location_of_def split: prod.splits sum.splits if_splits)

lemma loop_call_Cons:
  "loop_call b td base ext [sz] c \<or> loop_call b td base ext rest c
     \<Longrightarrow> loop_call b td base ext (sz # rest) c"
  by (auto simp: loop_call_def)

lemma process_sizes_processed:
  "process_sizes E b td lip base ext fext szs w acc = (Inr ps, w') \<Longrightarrow>
     \<exists>ws. subseq ws szs \<and> ps = acc @ map (location_of b base ext) ws"
proof (induction szs arbitrary: w acc)
  case Nil
  then show ?case by simp
next
  case (Cons sz rest)
  obtain r w1 where lb: "loop_body E b td lip base ext fext sz w acc = (r, w1)"
    by (cases "loop_body E b td lip base ext fext sz w acc")
  from Cons.prems lb obtain acc' where r: "r = Inr acc'"
    and rest: "process_sizes E b td lip base ext fext rest w1 acc' = (Inr ps, w')"
    by (cases r) auto
  from Cons.IH [OF rest] obtain ws
    where ws: "subseq ws rest" "ps = acc' @ map (location_of b base ext) ws"
    by blast
  from loop_body_processed lb r
  consider "acc' = acc" | "acc' = acc @ [location_of b base ext sz]" by blast
  then show ?case
  proof cases
    case 1
    with ws have "subseq ws (sz # rest)" "ps = acc @ map (location_of b base ext) ws" by auto
    then show ?thesis by blast
  next
    case 2
    with ws have "subseq (sz # ws) (sz # rest)"
      "ps = acc @ map (location_of b base ext) (sz # ws)" by auto
    then show ?thesis by blast
  qed
qed

lemma process_sizes_calls:
  "process_sizes E b td lip base ext fext szs w acc = (r, w') \<Longrightarrow>
   \<exists>cs. calls w' = calls w @ cs \<and> list_all (loop_call b td base ext szs) cs"
proof (induction szs arbitrary: w acc)
  case Nil
  then show ?case by simp
next
  case (Cons sz rest)
  obtain r1 w1 where lb: "loop_body E b td lip base ext fext sz w acc = (r1, w1)"
    by (cases "loop_body E b td lip base ext fext sz w acc")
  from loop_body_calls [OF lb] obtain c1
    where c1: "calls w1 = calls w @ c1" "list_all (loop_call b td base ext [sz]) c1"
    by (auto simp: loop_call_def)
  from c1(2) have c1': "list_all (loop_call b td base ext (sz # rest)) c1"
    by (auto simp: list_all_iff intro: loop_call_Cons)
  show ?case
  proof (cases r1)
    case (Inl e)
    with Cons.prems lb have "w' = w1" by simp
    with c1(1) c1' show ?thesis by auto
  next
    case (Inr acc')
    with Cons.prems lb have "process_sizes E b td lip base ext fext rest w1 acc' = (r, w')"
      by simp
    from Cons.IH [OF this] obtain cs
      where cs: "calls w' = calls w1 @ cs" "list_all (loop_call b td base ext rest) cs"
      by blast
    from cs(2) have "list_all (loop_call b td base ext (sz # rest)) cs"
      by (auto simp: list_all_iff intro: loop_call_Cons)
    with c1' have "list_all (loop_call b td base ext (sz # rest)) (c1 @ cs)" by simp
    moreover have "calls w' = calls w @ (c1 @ cs)" using c1(1) cs(1) by simp
    ultimately show ?thesis by blast
  qed
qed

lemma try_body_calls:
  assumes "try_body E w bucket_name object_key td lip file_name base ext fext = (r, w')"
  shows "\<exists>cs. calls w' = calls w @ S3Download bucket_name object_key lip # cs \<and>
           (cs = [] \<or> (\<exists>b. bucket_name = PStr b \<and> list_all (loop_call b td base ext sizes) cs))"
proof -
  obtain r1 w1 where d: "download_file E w bucket_name object_key lip = (r1, w1)"
    by (cases "download_file E w bucket_name object_key lip")
  note c1 = download_file_calls [OF d]
  show ?thesis
  proof (cases r1)
    case (Inl e)
    with assms d have "w' = w1" by (simp add: try_body_def)
    with c1 show ?thesis by simp
  next
    case (Inr u)
    show ?thesis
    proof (cases bucket_name)
      case (PStr b)
      obtain r2 w2 where p: "process_sizes E b td lip base ext fext sizes w1 [] = (r2, w2)"
        by (cases "process_sizes E b td lip base ext fext sizes w1 []")
      from process_sizes_calls [OF p] obtain cs
        where cs: "calls w2 = calls w1 @ cs" "list_all (loop_call b td base ext sizes) cs"
        by blast
      have "calls w' = calls w2"
        using assms d Inr PStr p
        by (auto simp: try_body_def Let_def rmdir_calls split: sum.splits prod.splits if_splits
                 dest: remove_file_calls)
      with cs c1 PStr show ?thesis by simp
    next
      case PNone with assms d Inr c1 show ?thesis by (simp add: try_body_def)
    next
      case PBool with assms d Inr c1 show ?thesis by (simp add: try_body_def)
    next
      case PInt with assms d Inr c1 show ?thesis by (simp add: try_body_def)
    next
      case PList with assms d Inr c1 show ?thesis by (simp add: try_body_def)
    next
      case PDict with assms d Inr c1 show ?thesis by (simp add: try_body_def)
    qed
  qed
qed

lemma try_body_processed:
  assumes "try_body E w bucket_name object_key td lip file_name base ext fext = (Inr r, w')"
  shows "\<exists>b ws. bucket_name = PStr b \<and> subseq ws sizes \<and>
           processed_files r = map (location_of b base ext) ws"
proof -
  from assms obtain u w1 where d: "download_file E w bucket_name object_key lip = (Inr u, w1)"
    by (auto simp: try_body_def split: prod.splits sum.splits)
  from assms d obtain b where b: "bucket_name = PStr b"
    by (cases bucket_name) (auto simp: try_body_def)
  from assms d b obtain ps w2
    where p: "process_sizes E b td lip base ext fext sizes w1 [] = (Inr ps, w2)"
      and r: "processed_files r = ps"
    by (auto simp: try_body_def Let_def split: prod.splits sum.splits if_splits)
  from process_sizes_processed [OF p] r b show ?thesis by auto
qed

lemma lambda_handler_summary:
  assumes "fst (lambda_handler E w event) = Returned \<lparr>statusCode = c, body = Summary r\<rparr>"
  shows "\<exists>bn k td w'. event_bucket event = Some bn \<and> event_key E event = Some k \<and>
           try_body E (w\<lparr>dirs := td # dirs w\<rparr>) bn k td (path_join td (basename k)) (basename k)
             (base_file_name_of k (uuid4 E)) (save_ext_of (file_ext_of k)) (file_ext_of k) = (Inr r, w')"
  using assms
  by (auto simp: lambda_handler_def event_bucket_def event_key_def Let_def
           split: sum.splits pyval.splits if_splits prod.splits)

lemma sorted_wrt_subseq:
  "subseq ws xs \<Longrightarrow> sorted_wrt P xs \<Longrightarrow> sorted_wrt P ws"
proof (induction rule: list_emb.induct)
  case (list_emb_Nil ys)
  then show ?case by simp
next
  case (list_emb_Cons xs ys y)
  then show ?case by simp
next
  case (list_emb_Cons2 x y xs ys)
  have "\<forall>z \<in> set xs. P x z"
  proof
    fix z assume "z \<in> set xs"
    with list_emb_Cons2.hyps(2) obtain z' where "z' \<in> set ys" "z = z'"
      by (rule list_emb_set)
    with list_emb_Cons2.prems list_emb_Cons2.hyps(1) show "P x z" by simp
  qed
  with list_emb_Cons2 show ?case by simp
qed

lemma sorted_sizes: "sorted_wrt (<) sizes"
  by (simp add: sizes_def)

lemma sample_run:
  "fst (lambda_handler sample_env sample_world sample_event) =
     Returned \<lparr>statusCode = 200, body = Summary
       \<lparr>original_file = ''s3://bkt/source_image/My Photo (1).png'',
        processed_files =
          [''s3://bkt/processed_image/My_Photo__1__deadbeef/200_My_Photo__1__deadbeef.png'',
           ''s3://bkt/processed_image/My_Photo__1__deadbeef/300_My_Photo__1__deadbeef.png'',
           ''s3://bkt/processed_image/My_Photo__1__deadbeef/500_My_Photo__1__deadbeef.png'',
           ''s3://bkt/processed_image/My_Photo__1__deadbeef/1000_My_Photo__1__deadbeef.png''],
        original_filename = ''My Photo (1).png'',
        sanitized_filename = ''My_Photo__1__deadbeef.png''\<rparr>\<rparr>"
  by code_simp

subsection \<open>Order of the processed locations\<close>

text \<open>
  C8. In a success response the processed locations are those of a subsequence of the
  configured sizes 200, 300, 500, 1000, in that order: whichever sizes were skipped, the
  locations stand in strictly ascending order of width.
\<close>

theorem processed_locations_ascending:
  assumes "fst (lambda_handler E w event) = Returned \<lparr>statusCode = 200, body = Summary r\<rparr>"
  shows "\<exists>b k ws. event_bucket event = Some (PStr b) \<and> event_key E event = Some k \<and>
           subseq ws sizes \<and> sorted_wrt (<) ws \<and>
           processed_files r =
             map (location_of b (base_file_name_of k (uuid4 E)) (save_ext_of (file_ext_of k))) ws"
proof -
  from lambda_handler_summary [OF assms] obtain bn k td w'
    where e: "event_bucket event = Some bn" "event_key E event = Some k"
      and t: "try_body E (w\<lparr>dirs := td # dirs w\<rparr>) bn k td (path_join td (basename k)) (basename k)
             (base_file_name_of k (uuid4 E)) (save_ext_of (file_ext_of k)) (file_ext_of k) = (Inr r, w')"
    by blast
  from try_body_processed [OF t] obtain b ws
    where b: "bn = PStr b" and ws: "subseq ws sizes"
      and p: "processed_files r =
        map (location_of b (base_file_name_of k (uuid4 E)) (save_ext_of (file_ext_of k))) ws"
    by blast
  from ws sorted_sizes have "sorted_wrt (<) ws"
    by (rule sorted_wrt_subseq)
  with e b ws p show ?thesis by blast
qed

theorem processed_locations_ascending_witness:
  "fst (lambda_handler sample_env sample_world sample_event) =
     Returned \<lparr>statusCode = 200, body = Summary
       \<lparr>original_file = ''s3://bkt/source_image/My Photo (1).png'',
        processed_files =
          [''s3://bkt/processed_image/My_Photo__1__deadbeef/200_My_Photo__1__deadbeef.png'',
           ''s3://bkt/processed_image/My_Photo__1__deadbeef/300_My_Photo__1__deadbeef.png'',
           ''s3://bkt/processed_image/My_Photo__1__deadbeef/500_My_Photo__1__deadbeef.png'',
           ''s3://bkt/processed_image/My_Photo__1__deadbeef/1000_My_Photo__1__deadbeef.png''],
        original_filename = ''My Photo (1).png'',
        sanitized_filename = ''My_Photo__1__deadbeef.png''\<rparr>\<rparr> \<and>
   (\<exists>b k ws. event_bucket sample_event = Some (PStr b) \<and> event_key sample_env sample_event = Some k \<and>
      subseq ws sizes \<and> sorted_wrt (<) ws \<and>
      [''s3://bkt/processed_image/My_Photo__1__deadbeef/200_My_Photo__1__deadbeef.png'',
       ''s3://bkt/processed_image/My_Photo__1__deadbeef/300_My_Photo__1__deadbeef.png'',
       ''s3://bkt/processed_image/My_Photo__1__deadbeef/500_My_Photo__1__deadbeef.png'',
       ''s3://bkt/processed_image/My_Photo__1__deadbeef/1000_My_Photo__1__deadbeef.png''] =
        map (location_of b (base_file_name_of k (uuid4 sample_env)) (save_ext_of (file_ext_of k))) ws)"
  using processed_locations_ascending [OF sample_run] sample_run by simp

lemma lambda_handler_mkdtemp_fails:
  assumes "event_bucket event = Some bucket_name" and "event_key E event = Some object_key"
    and "startswith object_key ''source_image/''"
    and "file_ext_of object_key \<in> set supported_exts"
    and "mkdtemp E = Inl e"
  shows "lambda_handler E w event = (Raised e, w)"
  using assms
  by (auto simp: lambda_handler_def event_bucket_def event_key_def Let_def
           split: sum.splits pyval.splits)

lemma issued_append: "calls w' = calls w @ cs \<Longrightarrow> issued w w' = cs"
  by (simp add: issued_def)

lemma issued_same [simp]: "issued w w = []"
  by (simp add: issued_def)

lemma lambda_handler_issued:
  assumes "event_bucket event = Some bucket_name" and "event_key E event = Some object_key"
    and "startswith object_key ''source_image/''"
    and "file_ext_of object_key \<in> set supported_exts"
    and "mkdtemp E = Inr temp_dir"
  shows "\<exists>cs. issued w (snd (lambda_handler E w event)) =
              S3Download bucket_name object_key (path_join temp_dir (basename object_key)) # cs \<and>
           (cs = [] \<or> (\<exists>b. bucket_name = PStr b \<and>
              list_all (loop_call b temp_dir (base_file_name_of object_key (uuid4 E))
                          (save_ext_of (file_ext_of object_key)) sizes) cs))"
proof -
  let ?w0 = "w\<lparr>dirs := temp_dir # dirs w\<rparr>"
  let ?t = "try_body E ?w0 bucket_name object_key temp_dir
                   (path_join temp_dir (basename object_key)) (basename object_key)
                   (base_file_name_of object_key (uuid4 E))
                   (save_ext_of (file_ext_of object_key)) (file_ext_of object_key)"
  obtain r w' where t: "?t = (r, w')" by (cases ?t)
  from try_body_calls [OF t] obtain cs
    where cs: "calls w' = calls ?w0 @
                 S3Download bucket_name object_key (path_join temp_dir (basename object_key)) # cs"
      and l: "cs = [] \<or> (\<exists>b. bucket_name = PStr b \<and>
              list_all (loop_call b temp_dir (base_file_name_of object_key (uuid4 E))
                          (save_ext_of (file_ext_of object_key)) sizes) cs)"
    by blast
  have "snd (lambda_handler E w event) = w'"
    using lambda_handler_accepted [OF assms, of w] t by (cases r) simp_all
  moreover from cs have "issued w w' =
      S3Download bucket_name object_key (path_join temp_dir (basename object_key)) # cs"
    by (simp add: issued_def)
  ultimately show ?thesis using l by auto
qed

subsection \<open>The layout of the output keys\<close>

lemma str_int_sizes: "map str_int sizes = [''200'', ''300'', ''500'', ''1000'']"
  by code_simp

lemma sanitize_filename_map:
  "sanitize_filename s =
     map (\<lambda>c. if c = CHR '' '' \<or> c = CHR ''('' \<or> c = CHR '')'' then CHR ''_'' else c) s"
  by (induction s) (auto simp: sanitize_filename_def replace_char_def)

lemma hex_digit_in: "hex_digit n \<in> set ''0123456789abcdef''"
proof -
  have "n mod 16 < length ''0123456789abcdef''" by simp
  then show ?thesis unfolding hex_digit_def by (rule nth_mem)
qed

lemma length_uuid_hex: "length (uuid_hex u) = 32"
  by (simp add: uuid_hex_def)

lemma set_uuid_hex: "set (uuid_hex u) \<subseteq> set ''0123456789abcdef''"
  unfolding uuid_hex_def using hex_digit_in by auto

lemma random_id_of_hex:
  "length (random_id_of u) = 8 \<and> set (random_id_of u) \<subseteq> set ''0123456789abcdef''"
proof
  show "length (random_id_of u) = 8" by (simp add: random_id_of_def length_uuid_hex)
  have "set (random_id_of u) \<subseteq> set (uuid_hex u)"
    unfolding random_id_of_def by (rule set_take_subset)
  with set_uuid_hex show "set (random_id_of u) \<subseteq> set ''0123456789abcdef''" by blast
qed

lemma lower_supported:
  "lower ''.jpg'' = ''.jpg''" "lower ''.jpeg'' = ''.jpeg''" "lower ''.png'' = ''.png''"
  by code_simp+

lemma save_ext_supported:
  assumes "file_ext_of k \<in> set supported_exts"
  shows "save_ext_of (file_ext_of k) = spec_ext k"
proof -
  from assms consider "file_ext_of k = ''.jpg''" | "file_ext_of k = ''.jpeg''" | "file_ext_of k = ''.png''"
    by (auto simp: supported_exts_def)
  then show ?thesis
    by cases (simp_all add: save_ext_of_def spec_ext_def file_ext_of_def [symmetric] lower_supported)
qed

lemma s3_key_spec:
  assumes "file_ext_of k \<in> set supported_exts"
  shows "s3_key_of sz (base_file_name_of k u) (save_ext_of (file_ext_of k)) =
           spec_output_key (spec_sanitized_base k) (random_id_of u) (str_int sz) (spec_ext k)"
  by (simp add: save_ext_supported [OF assms] s3_key_of_def folder_path_of_def
        output_file_name_of_def base_file_name_of_def spec_output_key_def spec_sanitized_base_def
        sanitize_filename_map name_without_ext_of_def)

lemma head_object_objects: "head_object E w b k = (r, w1) \<Longrightarrow> s3_objects w1 = s3_objects w"
  by (auto simp: head_object_def Let_def split: option.splits)

lemma save_objects: "save E w img path fmt q opt = (r, w1) \<Longrightarrow> s3_objects w1 = s3_objects w"
  by (auto simp: save_def split: option.splits)

lemma compress_objects:
  "compress_and_create_thumbnail E w ip op width ext q = (r, w1) \<Longrightarrow> s3_objects w1 = s3_objects w"
  by (auto simp: compress_and_create_thumbnail_def Let_def
           split: option.splits sum.splits if_splits dest: save_objects)

lemma upload_file_objects:
  assumes "upload_file E w f b k = (r, w1)"
  shows "s3_objects w x \<noteq> None \<Longrightarrow> s3_objects w1 x \<noteq> None"
    and "r = Inr u \<Longrightarrow> s3_objects w1 (b, k) \<noteq> None"
  using assms by (auto simp: upload_file_def Let_def split: option.splits if_splits)

lemma remove_file_objects: "remove_file w p = (r, w1) \<Longrightarrow> s3_objects w1 = s3_objects w"
  by (auto simp: remove_file_def split: if_splits)

lemma rmdir_objects: "s3_objects (snd (rmdir w p)) = s3_objects w"
  by (simp add: rmdir_def)

lemma not_404_iff: "(case e of ClientError code m \<Rightarrow> code \<noteq> ''404'' | _ \<Rightarrow> True) = (\<not> is_not_found e)"
  by (cases e) simp_all

lemma loop_body_cases:
  assumes "loop_body E b td lip base ext fext sz w acc = (r, w')"
  shows "\<exists>w1 w2 w3 w4 rh rc ru rr.
           head_object E w b (s3_key_of sz base ext) = (rh, w1) \<and>
           compress_and_create_thumbnail E w1 lip (path_join td (output_file_name_of sz base ext))
             sz fext default_quality = (rc, w2) \<and>
           upload_file E w2 (path_join td (output_file_name_of sz base ext)) b (s3_key_of sz base ext)
             = (ru, w3) \<and>
           (if path_exists w3 (path_join td (output_file_name_of sz base ext))
            then remove_file w3 (path_join td (output_file_name_of sz base ext))
            else (Inr (), w3)) = (rr, w4) \<and>
           ((w' = w1 \<and> r = Inr acc) \<or> (w' = w1 \<and> isl r) \<or> (w' = w2 \<and> isl r) \<or>
            (w' = w3 \<and> isl r) \<or> (w' = w4 \<and> isl r) \<or>
            (w' = w4 \<and> (\<exists>v. ru = Inr v) \<and> r = Inr (acc @ [location_of b base ext sz])))"
proof -
  let ?key = "s3_key_of sz base ext"
  let ?lop = "path_join td (output_file_name_of sz base ext)"
  obtain rh w1 where h: "head_object E w b ?key = (rh, w1)" by (cases "head_object E w b ?key")
  obtain rc w2 where c: "compress_and_create_thumbnail E w1 lip ?lop sz fext default_quality = (rc, w2)"
    by (cases "compress_and_create_thumbnail E w1 lip ?lop sz fext default_quality")
  obtain ru w3 where u: "upload_file E w2 ?lop b ?key = (ru, w3)"
    by (cases "upload_file E w2 ?lop b ?key")
  obtain rr w4 where rm: "(if path_exists w3 ?lop then remove_file w3 ?lop else (Inr (), w3)) = (rr, w4)"
    by (cases "if path_exists w3 ?lop then remove_file w3 ?lop else (Inr (), w3)")
  have "(w' = w1 \<and> r = Inr acc) \<or> (w' = w1 \<and> isl r) \<or> (w' = w2 \<and> isl r) \<or>
        (w' = w3 \<and> isl r) \<or> (w' = w4 \<and> isl r) \<or>
        (w' = w4 \<and> (\<exists>v. ru = Inr v) \<and> r = Inr (acc @ [location_of b base ext sz]))"
  proof (cases rh)
    case (Inr v)
    with assms h have "w' = w1 \<and> r = Inr acc" by (auto simp: loop_body_def Let_def)
    then show ?thesis by simp
  next
    case e: (Inl e)
    show ?thesis
    proof (cases "is_not_found e")
      case False
      with assms h e have "w' = w1 \<and> isl r" by (auto simp: loop_body_def Let_def not_404_iff)
      then show ?thesis by simp
    next
      case True
      show ?thesis
      proof (cases rc)
        case (Inl e2)
        with assms h e True c have "w' = w2 \<and> isl r"
          by (auto simp: loop_body_def Let_def not_404_iff)
        then show ?thesis by simp
      next
        case rc: (Inr v2)
        show ?thesis
        proof (cases ru)
          case (Inl e3)
          with assms h e True c rc u have "w' = w3 \<and> isl r"
            by (auto simp: loop_body_def Let_def not_404_iff)
          then show ?thesis by simp
        next
          case ru: (Inr v3)
          show ?thesis
          proof (cases rr)
            case (Inl e4)
            with assms h e True c rc u ru rm have "w' = w4 \<and> isl r"
              by (auto simp: loop_body_def Let_def not_404_iff)
            then show ?thesis by simp
          next
            case (Inr v4)
            with assms h e True c rc u ru rm
            have "w' = w4 \<and> r = Inr (acc @ [location_of b base ext sz])"
              by (auto simp: loop_body_def Let_def not_404_iff location_of_def)
            with ru show ?thesis by simp
          qed
        qed
      qed
    qed
  qed
  with h c u rm show ?thesis by blast
qed

lemma loop_body_objects:
  assumes "loop_body E b td lip base ext fext sz w acc = (r, w')"
    and "s3_objects w x \<noteq> None"
  shows "s3_objects w' x \<noteq> None"
proof -
  let ?key = "s3_key_of sz base ext"
  let ?lop = "path_join td (output_file_name_of sz base ext)"
  from loop_body_cases [OF assms(1)] obtain w1 w2 w3 w4 rh rc ru rr
    where h: "head_object E w b ?key = (rh, w1)"
      and c: "compress_and_create_thumbnail E w1 lip ?lop sz fext default_quality = (rc, w2)"
      and u: "upload_file E w2 ?lop b ?key = (ru, w3)"
      and rm: "(if path_exists w3 ?lop then remove_file w3 ?lop else (Inr (), w3)) = (rr, w4)"
      and w': "w' = w1 \<or> w' = w2 \<or> w' = w3 \<or> w' = w4"
    by blast
  have o1: "s3_objects w1 x \<noteq> None" using head_object_objects [OF h] assms(2) by simp
  then have o2: "s3_objects w2 x \<noteq> None" using compress_objects [OF c] by simp
  then have o3: "s3_objects w3 x \<noteq> None" by (rule upload_file_objects(1) [OF u])
  have "s3_objects w4 = s3_objects w3"
    using rm by (auto split: if_splits dest: remove_file_objects)
  with o3 have o4: "s3_objects w4 x \<noteq> None" by simp
  from w' o1 o2 o3 o4 show ?thesis by auto
qed

lemma loop_body_pass:
  assumes "loop_body E b td lip base ext fext sz w acc = (r, w')"
  shows "\<exists>up. calls w' = calls w @ pass_calls b td base ext (sz, up) \<and>
           (\<forall>ps. r = Inr ps \<longrightarrow>
              ps = acc @ (if up then [location_of b base ext sz] else []) \<and>
              (up \<longrightarrow> s3_objects w' (b, s3_key_of sz base ext) \<noteq> None))"
proof -
  let ?key = "s3_key_of sz base ext"
  let ?lop = "path_join td (output_file_name_of sz base ext)"
  from loop_body_cases [OF assms(1)] obtain w1 w2 w3 w4 rh rc ru rr
    where h: "head_object E w b ?key = (rh, w1)"
      and c: "compress_and_create_thumbnail E w1 lip ?lop sz fext default_quality = (rc, w2)"
      and u: "upload_file E w2 ?lop b ?key = (ru, w3)"
      and rm: "(if path_exists w3 ?lop then remove_file w3 ?lop else (Inr (), w3)) = (rr, w4)"
      and w': "(w' = w1 \<and> r = Inr acc) \<or> (w' = w1 \<and> isl r) \<or> (w' = w2 \<and> isl r) \<or>
            (w' = w3 \<and> isl r) \<or> (w' = w4 \<and> isl r) \<or>
            (w' = w4 \<and> (\<exists>v. ru = Inr v) \<and> r = Inr (acc @ [location_of b base ext sz]))"
    by blast
  have c1: "calls w1 = calls w @ [S3Head b ?key]" by (rule head_object_calls [OF h])
  have c2: "calls w2 = calls w1" by (rule compress_calls [OF c])
  have c3: "calls w3 = calls w2 @ [S3Upload ?lop b ?key]" by (rule upload_file_calls [OF u])
  have c4: "calls w4 = calls w3"
    using rm by (auto split: if_splits dest: remove_file_calls)
  have o4: "s3_objects w4 = s3_objects w3"
    using rm by (auto split: if_splits dest: remove_file_objects)
  have no_upload: "calls w1 = calls w @ pass_calls b td base ext (sz, False)"
    "calls w2 = calls w @ pass_calls b td base ext (sz, False)"
    using c1 c2 by (simp_all add: pass_calls_def)
  have upload: "calls w3 = calls w @ pass_calls b td base ext (sz, True)"
    "calls w4 = calls w @ pass_calls b td base ext (sz, True)"
    using c1 c2 c3 c4 by (simp_all add: pass_calls_def)
  have stored: "\<And>v. ru = Inr v \<Longrightarrow> s3_objects w4 (b, ?key) \<noteq> None"
    using upload_file_objects(2) [OF u] o4 by simp
  from w' consider (skip) "w' = w1" "r = Inr acc" | (a1) "w' = w1" "isl r" | (a2) "w' = w2" "isl r"
    | (a3) "w' = w3" "isl r" | (a4) "w' = w4" "isl r"
    | (fin) "w' = w4" "\<exists>v. ru = Inr v" "r = Inr (acc @ [location_of b base ext sz])"
    by blast
  then show ?thesis
  proof cases
    case skip
    with no_upload(1) show ?thesis by (intro exI [of _ False]) simp
  next
    case a1
    with no_upload(1) show ?thesis by (intro exI [of _ False]) auto
  next
    case a2
    with no_upload(2) show ?thesis by (intro exI [of _ False]) auto
  next
    case a3
    with upload(1) show ?thesis by (intro exI [of _ True]) auto
  next
    case a4
    with upload(2) show ?thesis by (intro exI [of _ True]) auto
  next
    case fin
    with upload(2) stored show ?thesis by (intro exI [of _ True]) auto
  qed
qed

lemma process_sizes_objects:
  "process_sizes E b td lip base ext fext szs w acc = (r, w') \<Longrightarrow> s3_objects w x \<noteq> None
     \<Longrightarrow> s3_objects w' x \<noteq> None"
proof (induction szs arbitrary: w acc)
  case Nil
  then show ?case by simp
next
  case (Cons sz rest)
  obtain r1 w1 where lb: "loop_body E b td lip base ext fext sz w acc = (r1, w1)"
    by (cases "loop_body E b td lip base ext fext sz w acc")
  from loop_body_objects [OF lb Cons.prems(2)] have o1: "s3_objects w1 x \<noteq> None" .
  show ?case
  proof (cases r1)
    case (Inl e)
    with Cons.prems(1) lb have "w' = w1" by simp
    with o1 show ?thesis by simp
  next
    case (Inr acc')
    with Cons.prems(1) lb have "process_sizes E b td lip base ext fext rest w1 acc' = (r, w')"
      by simp
    from Cons.IH [OF this o1] show ?thesis .
  qed
qed

lemma process_sizes_passes:
  "process_sizes E b td lip base ext fext szs w acc = (r, w') \<Longrightarrow>
   \<exists>ups. length ups \<le> length szs \<and>
     calls w' = calls w @ concat (map (pass_calls b td base ext) (zip szs ups)) \<and>
     (\<forall>ps. r = Inr ps \<longrightarrow>
        length ups = length szs \<and>
        ps = acc @ map (\<lambda>p. location_of b base ext (fst p)) (filter snd (zip szs ups)) \<and>
        (\<forall>p \<in> set (filter snd (zip szs ups)). s3_objects w' (b, s3_key_of (fst p) base ext) \<noteq> None))"
proof (induction szs arbitrary: w acc)
  case Nil
  then show ?case by auto
next
  case (Cons sz rest)
  obtain r1 w1 where lb: "loop_body E b td lip base ext fext sz w acc = (r1, w1)"
    by (cases "loop_body E b td lip base ext fext sz w acc")
  from loop_body_pass [OF lb] obtain up
    where c1: "calls w1 = calls w @ pass_calls b td base ext (sz, up)"
      and p1: "\<forall>ps. r1 = Inr ps \<longrightarrow>
              ps = acc @ (if up then [location_of b base ext sz] else []) \<and>
              (up \<longrightarrow> s3_objects w1 (b, s3_key_of sz base ext) \<noteq> None)"
    by blast
  show ?case
  proof (cases r1)
    case (Inl e)
    with Cons.prems lb have "w' = w1" "r = Inl e" by simp_all
    with c1 show ?thesis by (intro exI [of _ "[up]"]) simp
  next
    case (Inr acc')
    with Cons.prems lb have rest: "process_sizes E b td lip base ext fext rest w1 acc' = (r, w')"
      by simp
    from p1 Inr have acc': "acc' = acc @ (if up then [location_of b base ext sz] else [])"
      and st: "up \<Longrightarrow> s3_objects w1 (b, s3_key_of sz base ext) \<noteq> None"
      by simp_all
    from Cons.IH [OF rest] obtain ups
      where l: "length ups \<le> length rest"
        and c: "calls w' = calls w1 @ concat (map (pass_calls b td base ext) (zip rest ups))"
        and p: "\<forall>ps. r = Inr ps \<longrightarrow>
                  length ups = length rest \<and>
                  ps = acc' @ map (\<lambda>p. location_of b base ext (fst p)) (filter snd (zip rest ups)) \<and>
                  (\<forall>p \<in> set (filter snd (zip rest ups)).
                     s3_objects w' (b, s3_key_of (fst p) base ext) \<noteq> None)"
      by blast
    have st': "up \<Longrightarrow> s3_objects w' (b, s3_key_of sz base ext) \<noteq> None"
      using process_sizes_objects [OF rest] st by blast
    have "length (up # ups) \<le> length (sz # rest)" using l by simp
    moreover have "calls w' = calls w @
        concat (map (pass_calls b td base ext) (zip (sz # rest) (up # ups)))"
      using c c1 by simp
    moreover have "\<forall>ps. r = Inr ps \<longrightarrow>
        length (up # ups) = length (sz # rest) \<and>
        ps = acc @ map (\<lambda>p. location_of b base ext (fst p)) (filter snd (zip (sz # rest) (up # ups))) \<and>
        (\<forall>p \<in> set (filter snd (zip (sz # rest) (up # ups))).
           s3_objects w' (b, s3_key_of (fst p) base ext) \<noteq> None)"
      using p acc' st' by auto
    ultimately show ?thesis by blast
  qed
qed

lemma try_body_passes:
  assumes "try_body E w (PStr b) k td lip file_name base ext fext = (r, w')"
  shows "\<exists>ups. length ups \<le> length sizes \<and>
     calls w' = calls w @ S3Download (PStr b) k lip #
                  concat (map (pass_calls b td base ext) (zip sizes ups)) \<and>
     (\<forall>s. r = Inr s \<longrightarrow>
        length ups = length sizes \<and>
        processed_files s = map (\<lambda>p. location_of b base ext (fst p)) (filter snd (zip sizes ups)) \<and>
        (\<forall>p \<in> set (filter snd (zip sizes ups)). s3_objects w' (b, s3_key_of (fst p) base ext) \<noteq> None))"
proof -
  obtain r1 w1 where d: "download_file E w (PStr b) k lip = (r1, w1)"
    by (cases "download_file E w (PStr b) k lip")
  note c1 = download_file_calls [OF d]
  show ?thesis
  proof (cases r1)
    case (Inl e)
    with assms d have "w' = w1" "r = Inl e" by (simp_all add: try_body_def)
    with c1 show ?thesis by (intro exI [of _ "[]"]) simp
  next
    case (Inr u)
    obtain r2 w2 where p: "process_sizes E b td lip base ext fext sizes w1 [] = (r2, w2)"
      by (cases "process_sizes E b td lip base ext fext sizes w1 []")
    from process_sizes_passes [OF p] obtain ups
      where l: "length ups \<le> length sizes"
        and c: "calls w2 = calls w1 @ concat (map (pass_calls b td base ext) (zip sizes ups))"
        and q: "\<forall>ps. r2 = Inr ps \<longrightarrow>
                  length ups = length sizes \<and>
                  ps = [] @ map (\<lambda>p. location_of b base ext (fst p)) (filter snd (zip sizes ups)) \<and>
                  (\<forall>p \<in> set (filter snd (zip sizes ups)).
                     s3_objects w2 (b, s3_key_of (fst p) base ext) \<noteq> None)"
      by blast
    obtain rr w3 where rm: "(if path_exists w2 lip then remove_file w2 lip else (Inr (), w2)) = (rr, w3)"
      by (cases "if path_exists w2 lip then remove_file w2 lip else (Inr (), w2)")
    have c3: "calls w3 = calls w2" using rm by (auto split: if_splits dest: remove_file_calls)
    have o3: "s3_objects w3 = s3_objects w2"
      using rm by (auto split: if_splits dest: remove_file_objects)
    have "(w' = w2 \<and> isl r) \<or> (w' = w3 \<and> isl r) \<or>
          (w' = snd (rmdir w3 td) \<and> (\<exists>ps. r2 = Inr ps \<and> (\<exists>s. r = Inr s \<and> processed_files s = ps)))"
      using assms d Inr p rm
      by (auto simp: try_body_def Let_def split: sum.splits if_splits)
    then consider (a2) "w' = w2" "isl r" | (a3) "w' = w3" "isl r"
      | (fin) ps s where "w' = snd (rmdir w3 td)" "r2 = Inr ps" "r = Inr s" "processed_files s = ps"
      by blast
    then show ?thesis
    proof cases
      case a2
      with c c1 l show ?thesis by (intro exI [of _ ups]) auto
    next
      case a3
      with c c1 c3 l show ?thesis by (intro exI [of _ ups]) auto
    next
      case fin
      from q fin(2) have q': "length ups = length sizes"
        "ps = map (\<lambda>p. location_of b base ext (fst p)) (filter snd (zip sizes ups))"
        "\<forall>p \<in> set (filter snd (zip sizes ups)). s3_objects w2 (b, s3_key_of (fst p) base ext) \<noteq> None"
        by simp_all
      have "calls w' = calls w @ S3Download (PStr b) k lip #
                  concat (map (pass_calls b td base ext) (zip sizes ups))"
        using fin(1) c c1 c3 by (simp add: rmdir_calls)
      moreover have "s3_objects w' = s3_objects w2" using fin(1) o3 by (simp add: rmdir_objects)
      ultimately show ?thesis using q' fin(3,4) l by (intro exI [of _ ups]) simp
    qed
  qed
qed

lemma pass_calls_spec:
  assumes "file_ext_of k \<in> set supported_exts"
  shows "pass_calls b td (base_file_name_of k u) (save_ext_of (file_ext_of k)) =
           (\<lambda>p. spec_pass_calls b td (spec_sanitized_base k) (random_id_of u) (spec_ext k)
                  (str_int (fst p), snd p))"
proof
  fix p :: "int \<times> bool"
  have name: "output_file_name_of (fst p) (base_file_name_of k u) (save_ext_of (file_ext_of k)) =
      str_int (fst p) @ ''_'' @ spec_sanitized_base k @ ''_'' @ random_id_of u @ spec_ext k"
    by (simp add: save_ext_supported [OF assms] output_file_name_of_def base_file_name_of_def
          spec_sanitized_base_def sanitize_filename_map name_without_ext_of_def)
  show "pass_calls b td (base_file_name_of k u) (save_ext_of (file_ext_of k)) p =
          spec_pass_calls b td (spec_sanitized_base k) (random_id_of u) (spec_ext k)
            (str_int (fst p), snd p)"
    unfolding pass_calls_def spec_pass_calls_def s3_key_spec [OF assms] name by simp
qed

lemma zip_widths:
  "zip [''200'', ''300'', ''500'', ''1000''] ups = map (\<lambda>p. (str_int (fst p), snd p)) (zip sizes ups)"
proof -
  have "zip (map str_int sizes) ups = map (\<lambda>p. (str_int (fst p), snd p)) (zip sizes ups)"
    by (simp add: zip_map1 case_prod_beta)
  then show ?thesis by (simp add: str_int_sizes)
qed

text \<open>
  C2. For an event that passes the filter, for an object of a bucket \<open>b\<close>, there is a token
  of eight lowercase hexadecimal digits such that the handler works under the keys
  \<open>processed_image/{sanitizedBase}_{token}/{width}_{sanitizedBase}_{token}{ext}\<close>, where
  \<open>ext\<close> is .png when the lowercased source extension is .png and .jpg otherwise, and
  \<open>sanitizedBase\<close> is the base name without its extension with space and both parentheses
  replaced by an underscore: after the download, the storage calls are, for the widths 200,
  300, 500, 1000 in this order (all four in a run that succeeds, the first ones in a run
  that fails), the existence check under the key of that width and, where the pass uploads,
  the upload of the local file \<open>{width}_{sanitizedBase}_{token}{ext}\<close> of the scratch
  directory under the same key of the same bucket. In a run that succeeds the processed
  locations are \<open>s3://b/\<close> followed by the key, for the widths uploaded, and an object is
  stored under each of these keys. When the scratch directory cannot be created there is
  no storage call.
\<close>

theorem output_key_layout:
  assumes "event_bucket event = Some (PStr b)" and "event_key E event = Some object_key"
    and "startswith object_key ''source_image/''"
    and "lower (snd (splitext object_key)) \<in> {''.jpg'', ''.jpeg'', ''.png''}"
  shows "\<exists>token. length token = 8 \<and> set token \<subseteq> set ''0123456789abcdef'' \<and>
     (\<forall>e. mkdtemp E = Inl e \<longrightarrow> issued w (snd (lambda_handler E w event)) = []) \<and>
     (\<forall>temp_dir. mkdtemp E = Inr temp_dir \<longrightarrow>
        (\<exists>ups. length ups \<le> 4 \<and>
           issued w (snd (lambda_handler E w event)) =
             S3Download (PStr b) object_key (path_join temp_dir (basename object_key)) #
             concat (map (spec_pass_calls b temp_dir (spec_sanitized_base object_key) token
                            (spec_ext object_key))
                      (zip [''200'', ''300'', ''500'', ''1000''] ups)) \<and>
           (\<forall>r. fst (lambda_handler E w event) = Returned \<lparr>statusCode = 200, body = Summary r\<rparr> \<longrightarrow>
              length ups = 4 \<and>
              processed_files r =
                map (\<lambda>p. ''s3://'' @ b @ ''/'' @
                          spec_output_key (spec_sanitized_base object_key) token (fst p)
                            (spec_ext object_key))
                  (filter snd (zip [''200'', ''300'', ''500'', ''1000''] ups)) \<and>
              (\<forall>p \<in> set (filter snd (zip [''200'', ''300'', ''500'', ''1000''] ups)).
                 s3_objects (snd (lambda_handler E w event))
                   (b, spec_output_key (spec_sanitized_base object_key) token (fst p)
                         (spec_ext object_key)) \<noteq> None))))"
proof -
  from assms(4) have ext: "file_ext_of object_key \<in> set supported_exts"
    by (simp add: file_ext_of_def supported_exts_def)
  let ?token = "random_id_of (uuid4 E)"
  let ?base = "base_file_name_of object_key (uuid4 E)"
  let ?ext = "save_ext_of (file_ext_of object_key)"
  let ?sb = "spec_sanitized_base object_key"
  let ?widths = "[''200'', ''300'', ''500'', ''1000'']"
  let ?g = "\<lambda>p :: int \<times> bool. (str_int (fst p), snd p)"
  have no_dir: "\<forall>e. mkdtemp E = Inl e \<longrightarrow> issued w (snd (lambda_handler E w event)) = []"
  proof (intro allI impI)
    fix e assume "mkdtemp E = Inl e"
    from lambda_handler_mkdtemp_fails [OF assms(1-3) ext this, of w]
    show "issued w (snd (lambda_handler E w event)) = []" by simp
  qed
  have key: "\<And>sz. s3_key_of sz ?base ?ext = spec_output_key ?sb ?token (str_int sz) (spec_ext object_key)"
    by (rule s3_key_spec [OF ext])
  {
    fix temp_dir
    assume m: "mkdtemp E = Inr temp_dir"
    let ?lip = "path_join temp_dir (basename object_key)"
    let ?w0 = "w\<lparr>dirs := temp_dir # dirs w\<rparr>"
    obtain r w' where t: "try_body E ?w0 (PStr b) object_key temp_dir ?lip (basename object_key)
                             ?base ?ext (file_ext_of object_key) = (r, w')"
      by (cases "try_body E ?w0 (PStr b) object_key temp_dir ?lip (basename object_key)
                             ?base ?ext (file_ext_of object_key)")
    from try_body_passes [OF t] obtain ups
      where l: "length ups \<le> length sizes"
        and c: "calls w' = calls ?w0 @ S3Download (PStr b) object_key ?lip #
                  concat (map (pass_calls b temp_dir ?base ?ext) (zip sizes ups))"
        and q: "\<forall>s. r = Inr s \<longrightarrow>
                  length ups = length sizes \<and>
                  processed_files s = map (\<lambda>p. location_of b ?base ?ext (fst p)) (filter snd (zip sizes ups)) \<and>
                  (\<forall>p \<in> set (filter snd (zip sizes ups)).
                     s3_objects w' (b, s3_key_of (fst p) ?base ?ext) \<noteq> None)"
      by blast
    have lh: "lambda_handler E w event =
                (case r of Inl e \<Rightarrow> Returned \<lparr>statusCode = 500, body = Text (str_exn e)\<rparr>
                 | Inr s \<Rightarrow> Returned \<lparr>statusCode = 200, body = Summary s\<rparr>, w')"
      using lambda_handler_accepted [OF assms(1-3) ext m, of w] t by (cases r) simp_all
    have l4: "length ups \<le> 4" using l by (simp add: sizes_def)
    have filt: "filter snd (zip ?widths ups) = map ?g (filter snd (zip sizes ups))"
      by (simp add: zip_widths filter_map comp_def)
    have "issued w w' = S3Download (PStr b) object_key ?lip #
            concat (map (pass_calls b temp_dir ?base ?ext) (zip sizes ups))"
      using c by (simp add: issued_def)
    also have "concat (map (pass_calls b temp_dir ?base ?ext) (zip sizes ups)) =
        concat (map (spec_pass_calls b temp_dir ?sb ?token (spec_ext object_key)) (zip ?widths ups))"
      by (simp add: zip_widths comp_def pass_calls_spec [OF ext])
    finally have log: "issued w (snd (lambda_handler E w event)) =
             S3Download (PStr b) object_key ?lip #
             concat (map (spec_pass_calls b temp_dir ?sb ?token (spec_ext object_key)) (zip ?widths ups))"
      using lh by simp
    have ok: "\<forall>s. fst (lambda_handler E w event) = Returned \<lparr>statusCode = 200, body = Summary s\<rparr> \<longrightarrow>
              length ups = 4 \<and>
              processed_files s =
                map (\<lambda>p. ''s3://'' @ b @ ''/'' @ spec_output_key ?sb ?token (fst p) (spec_ext object_key))
                  (filter snd (zip ?widths ups)) \<and>
              (\<forall>p \<in> set (filter snd (zip ?widths ups)).
                 s3_objects (snd (lambda_handler E w event))
                   (b, spec_output_key ?sb ?token (fst p) (spec_ext object_key)) \<noteq> None)"
    proof (intro allI impI)
      fix s
      assume "fst (lambda_handler E w event) = Returned \<lparr>statusCode = 200, body = Summary s\<rparr>"
      with lh have rs: "r = Inr s" by (cases r) simp_all
      with q have q1: "length ups = length sizes"
        and q2: "processed_files s = map (\<lambda>p. location_of b ?base ?ext (fst p)) (filter snd (zip sizes ups))"
        and q3: "\<forall>p \<in> set (filter snd (zip sizes ups)).
                     s3_objects w' (b, s3_key_of (fst p) ?base ?ext) \<noteq> None"
        by simp_all
      from q1 have "length ups = 4" by (simp add: sizes_def)
      moreover from q2 have "processed_files s =
                map (\<lambda>p. ''s3://'' @ b @ ''/'' @ spec_output_key ?sb ?token (fst p) (spec_ext object_key))
                  (filter snd (zip ?widths ups))"
        by (simp add: filt comp_def location_of_def key)
      moreover from q3 have "\<forall>p \<in> set (filter snd (zip ?widths ups)).
                 s3_objects (snd (lambda_handler E w event))
                   (b, spec_output_key ?sb ?token (fst p) (spec_ext object_key)) \<noteq> None"
        unfolding filt using lh by (simp add: key)
      ultimately show "length ups = 4 \<and>
              processed_files s =
                map (\<lambda>p. ''s3://'' @ b @ ''/'' @ spec_output_key ?sb ?token (fst p) (spec_ext object_key))
                  (filter snd (zip ?widths ups)) \<and>
              (\<forall>p \<in> set (filter snd (zip ?widths ups)).
                 s3_objects (snd (lambda_handler E w event))
                   (b, spec_output_key ?sb ?token (fst p) (spec_ext object_key)) \<noteq> None)"
        by simp
    qed
    from l4 log ok have "\<exists>ups. length ups \<le> 4 \<and>
           issued w (snd (lambda_handler E w event)) =
             S3Download (PStr b) object_key ?lip #
             concat (map (spec_pass_calls b temp_dir ?sb ?token (spec_ext object_key)) (zip ?widths ups)) \<and>
           (\<forall>r. fst (lambda_handler E w event) = Returned \<lparr>statusCode = 200, body = Summary r\<rparr> \<longrightarrow>
              length ups = 4 \<and>
              processed_files r =
                map (\<lambda>p. ''s3://'' @ b @ ''/'' @ spec_output_key ?sb ?token (fst p) (spec_ext object_key))
                  (filter snd (zip ?widths ups)) \<and>
              (\<forall>p \<in> set (filter snd (zip ?widths ups)).
                 s3_objects (snd (lambda_handler E w event))
                   (b, spec_output_key ?sb ?token (fst p) (spec_ext object_key)) \<noteq> None))"
      by blast
  }
  with no_dir random_id_of_hex [of "uuid4 E"] show ?thesis by blast
qed

lemma partly_run:
  "fst (lambda_handler sample_env partly_processed_world sample_event) =
     Returned \<lparr>statusCode = 200, body = Summary
       \<lparr>original_file = ''s3://bkt/source_image/My Photo (1).png'',
        processed_files =
          [''s3://bkt/processed_image/My_Photo__1__deadbeef/200_My_Photo__1__deadbeef.png'',
           ''s3://bkt/processed_image/My_Photo__1__deadbeef/500_My_Photo__1__deadbeef.png'',
           ''s3://bkt/processed_image/My_Photo__1__deadbeef/1000_My_Photo__1__deadbeef.png''],
        original_filename = ''My Photo (1).png'',
        sanitized_filename = ''My_Photo__1__deadbeef.png''\<rparr>\<rparr>"
  by code_simp

lemma no_scratch_event_key:
  "event_key full_disk_env sample_event = Some ''source_image/My Photo (1).png''"
  by code_simp

lemma no_scratch_mkdtemp: "mkdtemp full_disk_env = Inl (OSError ''No space left on device'')"
  by (simp add: full_disk_env_def)

lemma sample_ext_in:
  "lower (snd (splitext ''source_image/My Photo (1).png'')) \<in> {''.jpg'', ''.jpeg'', ''.png''}"
proof -
  have "lower (snd (splitext ''source_image/My Photo (1).png'')) = ''.png''" by code_simp
  then show ?thesis by simp
qed

theorem output_key_layout_witness:
  "event_bucket sample_event = Some (PStr ''bkt'') \<and>
   event_key sample_env sample_event = Some ''source_image/My Photo (1).png'' \<and>
   event_key full_disk_env sample_event = Some ''source_image/My Photo (1).png'' \<and>
   startswith ''source_image/My Photo (1).png'' ''source_image/'' \<and>
   lower (snd (splitext ''source_image/My Photo (1).png'')) \<in> {''.jpg'', ''.jpeg'', ''.png''} \<and>
   mkdtemp full_disk_env = Inl (OSError ''No space left on device'') \<and>
   issued partly_processed_world
     (snd (lambda_handler full_disk_env partly_processed_world sample_event)) = [] \<and>
   mkdtemp sample_env = Inr ''/tmp/tmpk3x9'' \<and>
   (\<exists>token ups. length token = 8 \<and> set token \<subseteq> set ''0123456789abcdef'' \<and> length ups = 4 \<and>
      issued partly_processed_world
          (snd (lambda_handler sample_env partly_processed_world sample_event)) =
        S3Download (PStr ''bkt'') ''source_image/My Photo (1).png''
          (path_join ''/tmp/tmpk3x9'' (basename ''source_image/My Photo (1).png'')) #
        concat (map (spec_pass_calls ''bkt'' ''/tmp/tmpk3x9''
                       (spec_sanitized_base ''source_image/My Photo (1).png'') token
                       (spec_ext ''source_image/My Photo (1).png''))
                 (zip [''200'', ''300'', ''500'', ''1000''] ups)) \<and>
      [''s3://bkt/processed_image/My_Photo__1__deadbeef/200_My_Photo__1__deadbeef.png'',
       ''s3://bkt/processed_image/My_Photo__1__deadbeef/500_My_Photo__1__deadbeef.png'',
       ''s3://bkt/processed_image/My_Photo__1__deadbeef/1000_My_Photo__1__deadbeef.png''] =
        map (\<lambda>p. ''s3://'' @ ''bkt'' @ ''/'' @
                  spec_output_key (spec_sanitized_base ''source_image/My Photo (1).png'') token (fst p)
                    (spec_ext ''source_image/My Photo (1).png''))
          (filter snd (zip [''200'', ''300'', ''500'', ''1000''] ups)))"
proof -
  let ?k = "''source_image/My Photo (1).png''"
  let ?widths = "[''200'', ''300'', ''500'', ''1000'']"
  let ?run = "lambda_handler sample_env partly_processed_world sample_event"
  let ?r = "\<lparr>original_file = ''s3://bkt/source_image/My Photo (1).png'',
        processed_files =
          [''s3://bkt/processed_image/My_Photo__1__deadbeef/200_My_Photo__1__deadbeef.png'',
           ''s3://bkt/processed_image/My_Photo__1__deadbeef/500_My_Photo__1__deadbeef.png'',
           ''s3://bkt/processed_image/My_Photo__1__deadbeef/1000_My_Photo__1__deadbeef.png''],
        original_filename = ''My Photo (1).png'',
        sanitized_filename = ''My_Photo__1__deadbeef.png''\<rparr>"
  from output_key_layout [OF sample_event_bucket no_scratch_event_key sample_key_prefix
      sample_ext_in, of partly_processed_world] no_scratch_mkdtemp
  have none: "issued partly_processed_world
     (snd (lambda_handler full_disk_env partly_processed_world sample_event)) = []"
    by blast
  from output_key_layout [OF sample_event_bucket sample_event_key sample_key_prefix
      sample_ext_in, of partly_processed_world]
  obtain token where t: "length token = 8" "set token \<subseteq> set ''0123456789abcdef''"
    and d: "\<forall>temp_dir. mkdtemp sample_env = Inr temp_dir \<longrightarrow>
        (\<exists>ups. length ups \<le> 4 \<and>
           issued partly_processed_world (snd ?run) =
             S3Download (PStr ''bkt'') ?k (path_join temp_dir (basename ?k)) #
             concat (map (spec_pass_calls ''bkt'' temp_dir (spec_sanitized_base ?k) token (spec_ext ?k))
                      (zip ?widths ups)) \<and>
           (\<forall>r. fst ?run = Returned \<lparr>statusCode = 200, body = Summary r\<rparr> \<longrightarrow>
              length ups = 4 \<and>
              processed_files r =
                map (\<lambda>p. ''s3://'' @ ''bkt'' @ ''/'' @
                          spec_output_key (spec_sanitized_base ?k) token (fst p) (spec_ext ?k))
                  (filter snd (zip ?widths ups)) \<and>
              (\<forall>p \<in> set (filter snd (zip ?widths ups)).
                 s3_objects (snd ?run)
                   (''bkt'', spec_output_key (spec_sanitized_base ?k) token (fst p) (spec_ext ?k))
                   \<noteq> None)))"
    by blast
  from d sample_mkdtemp obtain ups
    where log: "issued partly_processed_world (snd ?run) =
             S3Download (PStr ''bkt'') ?k (path_join ''/tmp/tmpk3x9'' (basename ?k)) #
             concat (map (spec_pass_calls ''bkt'' ''/tmp/tmpk3x9'' (spec_sanitized_base ?k) token (spec_ext ?k))
                      (zip ?widths ups))"
      and ok: "\<forall>r. fst ?run = Returned \<lparr>statusCode = 200, body = Summary r\<rparr> \<longrightarrow>
              length ups = 4 \<and>
              processed_files r =
                map (\<lambda>p. ''s3://'' @ ''bkt'' @ ''/'' @
                          spec_output_key (spec_sanitized_base ?k) token (fst p) (spec_ext ?k))
                  (filter snd (zip ?widths ups))"
    by blast
  from ok partly_run have "length ups = 4 \<and> processed_files ?r =
                map (\<lambda>p. ''s3://'' @ ''bkt'' @ ''/'' @
                          spec_output_key (spec_sanitized_base ?k) token (fst p) (spec_ext ?k))
                  (filter snd (zip ?widths ups))"
    by blast
  then have ups: "length ups = 4"
    and locs: "[''s3://bkt/processed_image/My_Photo__1__deadbeef/200_My_Photo__1__deadbeef.png'',
       ''s3://bkt/processed_image/My_Photo__1__deadbeef/500_My_Photo__1__deadbeef.png'',
       ''s3://bkt/processed_image/My_Photo__1__deadbeef/1000_My_Photo__1__deadbeef.png''] =
        map (\<lambda>p. ''s3://'' @ ''bkt'' @ ''/'' @
                  spec_output_key (spec_sanitized_base ?k) token (fst p) (spec_ext ?k))
          (filter snd (zip ?widths ups))"
    by simp_all
  from t ups log locs have "\<exists>token ups. length token = 8 \<and> set token \<subseteq> set ''0123456789abcdef'' \<and>
      length ups = 4 \<and>
      issued partly_processed_world (snd ?run) =
        S3Download (PStr ''bkt'') ?k (path_join ''/tmp/tmpk3x9'' (basename ?k)) #
        concat (map (spec_pass_calls ''bkt'' ''/tmp/tmpk3x9'' (spec_sanitized_base ?k) token (spec_ext ?k))
                 (zip ?widths ups)) \<and>
      [''s3://bkt/processed_image/My_Photo__1__deadbeef/200_My_Photo__1__deadbeef.png'',
       ''s3://bkt/processed_image/My_Photo__1__deadbeef/500_My_Photo__1__deadbeef.png'',
       ''s3://bkt/processed_image/My_Photo__1__deadbeef/1000_My_Photo__1__deadbeef.png''] =
        map (\<lambda>p. ''s3://'' @ ''bkt'' @ ''/'' @
                  spec_output_key (spec_sanitized_base ?k) token (fst p) (spec_ext ?k))
          (filter snd (zip ?widths ups))"
    by - (rule exI [of _ token], rule exI [of _ ups], simp)
  with none sample_event_bucket sample_event_key no_scratch_event_key sample_key_prefix
    sample_ext_in no_scratch_mkdtemp sample_mkdtemp
  show ?thesis by simp
qed

subsection \<open>Fetching the source\<close>

lemma loop_call_not_download: "loop_call b td base ext szs c \<Longrightarrow> \<not> is_download c"
  by (auto simp: loop_call_def list_ex_iff)

lemma head_object_found:
  assumes "head_fault E b k = None" and "s3_objects w (b, k) \<noteq> None"
  shows "head_object E w b k = (Inr (), w\<lparr>calls := calls w @ [S3Head b k]\<rparr>)"
  using assms by (auto simp: head_object_def Let_def)

lemma loop_body_found:
  assumes "head_fault E b (s3_key_of sz base ext) = None"
    and "s3_objects w (b, s3_key_of sz base ext) \<noteq> None"
  shows "loop_body E b td lip base ext fext sz w acc =
           (Inr acc, w\<lparr>calls := calls w @ [S3Head b (s3_key_of sz base ext)]\<rparr>)"
  by (simp add: loop_body_def Let_def head_object_found [OF assms])

lemma process_sizes_all_found:
  "list_all (\<lambda>sz. head_fault E b (s3_key_of sz base ext) = None \<and>
                   s3_objects w (b, s3_key_of sz base ext) \<noteq> None) szs \<Longrightarrow>
   process_sizes E b td lip base ext fext szs w acc =
     (Inr acc, w\<lparr>calls := calls w @ map (\<lambda>sz. S3Head b (s3_key_of sz base ext)) szs\<rparr>)"
proof (induction szs arbitrary: w)
  case Nil
  show ?case by simp
next
  case (Cons sz rest)
  let ?w1 = "w\<lparr>calls := calls w @ [S3Head b (s3_key_of sz base ext)]\<rparr>"
  from Cons.prems have h: "head_fault E b (s3_key_of sz base ext) = None"
    "s3_objects w (b, s3_key_of sz base ext) \<noteq> None" by simp_all
  from Cons.prems have "list_all (\<lambda>sz. head_fault E b (s3_key_of sz base ext) = None \<and>
                   s3_objects ?w1 (b, s3_key_of sz base ext) \<noteq> None) rest" by simp
  from Cons.IH [OF this] show ?case
    by (simp add: loop_body_found [OF h])
qed

lemma download_file_ok:
  assumes "download_fault E b k = None" and "s3_objects w (b, k) = Some c"
  shows "download_file E w (PStr b) k f =
           (Inr (), w\<lparr>calls := calls w @ [S3Download (PStr b) k f],
                        files := AList.update f c (files w)\<rparr>)"
  using assms by (simp add: download_file_def Let_def)

lemma try_body_all_found:
  assumes "download_fault E b k = None" and "s3_objects w (b, k) = Some c"
    and "list_all (\<lambda>sz. head_fault E b (s3_key_of sz base ext) = None \<and>
                   s3_objects w (b, s3_key_of sz base ext) \<noteq> None) sizes"
  shows "\<exists>r w'. try_body E w (PStr b) k td lip file_name base ext fext = (Inr r, w') \<and>
           processed_files r = [] \<and>
           calls w' = calls w @ S3Download (PStr b) k lip # map (\<lambda>sz. S3Head b (s3_key_of sz base ext)) sizes"
proof -
  let ?w1 = "w\<lparr>calls := calls w @ [S3Download (PStr b) k lip], files := AList.update lip c (files w)\<rparr>"
  let ?w2 = "?w1\<lparr>calls := calls ?w1 @ map (\<lambda>sz. S3Head b (s3_key_of sz base ext)) sizes\<rparr>"
  have d: "download_file E w (PStr b) k lip = (Inr (), ?w1)"
    using download_file_ok [OF assms(1,2), of lip] by simp
  from assms(3) have "list_all (\<lambda>sz. head_fault E b (s3_key_of sz base ext) = None \<and>
                   s3_objects ?w1 (b, s3_key_of sz base ext) \<noteq> None) sizes" by simp
  from process_sizes_all_found [OF this, of td lip fext "[]"]
  have p: "process_sizes E b td lip base ext fext sizes ?w1 [] = (Inr [], ?w2)" by simp
  have ex: "path_exists ?w2 lip"
    by (simp add: path_exists_def update_conv')
  obtain u w3 where rm: "remove_file ?w2 lip = (Inr u, w3)"
    by (simp add: remove_file_def update_conv')
  then have c3: "calls w3 = calls ?w2" by (rule remove_file_calls)
  have "try_body E w (PStr b) k td lip file_name base ext fext =
          (Inr \<lparr>original_file = ''s3://'' @ b @ ''/'' @ k, processed_files = [],
                 original_filename = file_name, sanitized_filename = base @ ext\<rparr>,
           snd (rmdir w3 td))"
    using d p ex rm by (simp add: try_body_def Let_def)
  moreover have "calls (snd (rmdir w3 td)) =
      calls w @ S3Download (PStr b) k lip # map (\<lambda>sz. S3Head b (s3_key_of sz base ext)) sizes"
    using c3 by (simp add: rmdir_calls)
  ultimately show ?thesis by simp
qed

text \<open>
  C1, as the code has it. For an event that passes the filter there are two cases. When the
  scratch directory cannot be created, the handler raises that error and makes no storage
  call at all. When it is created, the first storage call is the download of the source,
  and it is the only download: it is made before any existence check, whatever the checks
  will find. When, moreover, the download succeeds and every one of the four outputs
  exists, the calls are that one download and the four existence checks, nothing is
  uploaded, and the response has status 200 with no processed location.
\<close>

theorem source_fetched_once_up_front:
  assumes "event_bucket event = Some bucket_name" and "event_key E event = Some object_key"
    and "startswith object_key ''source_image/''"
    and "lower (snd (splitext object_key)) \<in> {''.jpg'', ''.jpeg'', ''.png''}"
  shows "(\<forall>e. mkdtemp E = Inl e \<longrightarrow>
            lambda_handler E w event = (Raised e, w) \<and>
            issued w (snd (lambda_handler E w event)) = []) \<and>
         (\<forall>temp_dir. mkdtemp E = Inr temp_dir \<longrightarrow>
           (\<exists>cs. issued w (snd (lambda_handler E w event)) =
              S3Download bucket_name object_key (path_join temp_dir (basename object_key)) # cs \<and>
              filter is_download cs = []) \<and>
           (\<forall>b c. bucket_name = PStr b \<and> download_fault E b object_key = None \<and>
             s3_objects w (b, object_key) = Some c \<and>
             list_all (\<lambda>sz. head_fault E b (s3_key_of sz (base_file_name_of object_key (uuid4 E))
                                              (save_ext_of (file_ext_of object_key))) = None \<and>
                            s3_objects w (b, s3_key_of sz (base_file_name_of object_key (uuid4 E))
                                              (save_ext_of (file_ext_of object_key))) \<noteq> None) sizes
           \<longrightarrow>
             issued w (snd (lambda_handler E w event)) =
               S3Download bucket_name object_key (path_join temp_dir (basename object_key)) #
               map (\<lambda>sz. S3Head b (s3_key_of sz (base_file_name_of object_key (uuid4 E))
                                      (save_ext_of (file_ext_of object_key)))) sizes \<and>
             filter is_upload (issued w (snd (lambda_handler E w event))) = [] \<and>
             (\<exists>r. fst (lambda_handler E w event) = Returned \<lparr>statusCode = 200, body = Summary r\<rparr> \<and>
                  processed_files r = [])))"
proof -
  from assms(4) have ext: "file_ext_of object_key \<in> set supported_exts"
    by (simp add: file_ext_of_def supported_exts_def)
  let ?base = "base_file_name_of object_key (uuid4 E)"
  let ?ext = "save_ext_of (file_ext_of object_key)"
  have no_dir: "\<forall>e. mkdtemp E = Inl e \<longrightarrow>
            lambda_handler E w event = (Raised e, w) \<and>
            issued w (snd (lambda_handler E w event)) = []"
  proof (intro allI impI)
    fix e assume "mkdtemp E = Inl e"
    from lambda_handler_mkdtemp_fails [OF assms(1-3) ext this, of w]
    show "lambda_handler E w event = (Raised e, w) \<and>
            issued w (snd (lambda_handler E w event)) = []" by simp
  qed
  {
  fix temp_dir
  assume m: "mkdtemp E = Inr temp_dir"
  let ?lip = "path_join temp_dir (basename object_key)"
  let ?w0 = "w\<lparr>dirs := temp_dir # dirs w\<rparr>"
  from lambda_handler_issued [OF assms(1-3) ext m, of w] obtain cs
    where i: "issued w (snd (lambda_handler E w event)) = S3Download bucket_name object_key ?lip # cs"
      and c: "cs = [] \<or> (\<exists>b. bucket_name = PStr b \<and> list_all (loop_call b temp_dir ?base ?ext sizes) cs)"
    by blast
  from c have "filter is_download cs = []"
    by (auto simp: list_all_iff filter_empty_conv dest: loop_call_not_download)
  with i have first: "\<exists>cs. issued w (snd (lambda_handler E w event)) =
              S3Download bucket_name object_key ?lip # cs \<and> filter is_download cs = []"
    by blast
  {
  fix b c
  assume a: "bucket_name = PStr b \<and> download_fault E b object_key = None \<and>
             s3_objects w (b, object_key) = Some c \<and>
             list_all (\<lambda>sz. head_fault E b (s3_key_of sz ?base ?ext) = None \<and>
                            s3_objects w (b, s3_key_of sz ?base ?ext) \<noteq> None) sizes"
  then have a1: "download_fault E b object_key = None" and a2: "s3_objects ?w0 (b, object_key) = Some c"
    and a3: "list_all (\<lambda>sz. head_fault E b (s3_key_of sz ?base ?ext) = None \<and>
                            s3_objects ?w0 (b, s3_key_of sz ?base ?ext) \<noteq> None) sizes"
    by simp_all
  from try_body_all_found [OF a1 a2 a3, of temp_dir ?lip "basename object_key" "file_ext_of object_key"]
  obtain r w' where t: "try_body E ?w0 (PStr b) object_key temp_dir ?lip (basename object_key)
                           ?base ?ext (file_ext_of object_key) = (Inr r, w')"
    and r: "processed_files r = []"
    and cw: "calls w' = calls ?w0 @ S3Download (PStr b) object_key ?lip #
               map (\<lambda>sz. S3Head b (s3_key_of sz ?base ?ext)) sizes"
    by blast
  from a have bn: "bucket_name = PStr b" by simp
  have lh: "lambda_handler E w event = (Returned \<lparr>statusCode = 200, body = Summary r\<rparr>, w')"
    using lambda_handler_accepted [OF assms(1-3) ext m, of w] t bn by simp
  from cw have "issued w w' = S3Download (PStr b) object_key ?lip #
               map (\<lambda>sz. S3Head b (s3_key_of sz ?base ?ext)) sizes"
    by (simp add: issued_def)
  moreover have "filter is_upload (S3Download (PStr b) object_key ?lip #
               map (\<lambda>sz. S3Head b (s3_key_of sz ?base ?ext)) sizes) = []"
    by (simp add: filter_map comp_def)
  ultimately have "issued w (snd (lambda_handler E w event)) =
               S3Download bucket_name object_key ?lip #
               map (\<lambda>sz. S3Head b (s3_key_of sz ?base ?ext)) sizes \<and>
             filter is_upload (issued w (snd (lambda_handler E w event))) = [] \<and>
             (\<exists>r. fst (lambda_handler E w event) = Returned \<lparr>statusCode = 200, body = Summary r\<rparr> \<and>
                  processed_files r = [])"
    using lh bn r by simp
  }
  with first have "(\<exists>cs. issued w (snd (lambda_handler E w event)) =
              S3Download bucket_name object_key ?lip # cs \<and> filter is_download cs = []) \<and>
           (\<forall>b c. bucket_name = PStr b \<and> download_fault E b object_key = None \<and>
             s3_objects w (b, object_key) = Some c \<and>
             list_all (\<lambda>sz. head_fault E b (s3_key_of sz ?base ?ext) = None \<and>
                            s3_objects w (b, s3_key_of sz ?base ?ext) \<noteq> None) sizes
           \<longrightarrow>
             issued w (snd (lambda_handler E w event)) =
               S3Download bucket_name object_key ?lip #
               map (\<lambda>sz. S3Head b (s3_key_of sz ?base ?ext)) sizes \<and>
             filter is_upload (issued w (snd (lambda_handler E w event))) = [] \<and>
             (\<exists>r. fst (lambda_handler E w event) = Returned \<lparr>statusCode = 200, body = Summary r\<rparr> \<and>
                  processed_files r = []))"
    by blast
  }
  with no_dir show ?thesis by blast
qed

theorem source_fetched_once_up_front_witness:
  "event_bucket sample_event = Some (PStr ''bkt'') \<and>
   event_key sample_env sample_event = Some ''source_image/My Photo (1).png'' \<and>
   event_key full_disk_env sample_event = Some ''source_image/My Photo (1).png'' \<and>
   startswith ''source_image/My Photo (1).png'' ''source_image/'' \<and>
   lower (snd (splitext ''source_image/My Photo (1).png'')) \<in> {''.jpg'', ''.jpeg'', ''.png''} \<and>
   mkdtemp full_disk_env = Inl (OSError ''No space left on device'') \<and>
   lambda_handler full_disk_env processed_world sample_event =
     (Raised (OSError ''No space left on device''), processed_world) \<and>
   issued processed_world (snd (lambda_handler full_disk_env processed_world sample_event)) = [] \<and>
   mkdtemp sample_env = Inr ''/tmp/tmpk3x9'' \<and>
   download_fault sample_env ''bkt'' ''source_image/My Photo (1).png'' = None \<and>
   s3_objects processed_world (''bkt'', ''source_image/My Photo (1).png'') = Some (SourceBytes 0) \<and>
   list_all (\<lambda>sz. head_fault sample_env ''bkt''
                     (s3_key_of sz (base_file_name_of ''source_image/My Photo (1).png'' (uuid4 sample_env))
                        (save_ext_of (file_ext_of ''source_image/My Photo (1).png''))) = None \<and>
                  s3_objects processed_world (''bkt'',
                     s3_key_of sz (base_file_name_of ''source_image/My Photo (1).png'' (uuid4 sample_env))
                        (save_ext_of (file_ext_of ''source_image/My Photo (1).png''))) \<noteq> None) sizes \<and>
   issued processed_world (snd (lambda_handler sample_env processed_world sample_event)) =
     S3Download (PStr ''bkt'') ''source_image/My Photo (1).png''
       (path_join ''/tmp/tmpk3x9'' (basename ''source_image/My Photo (1).png'')) #
     map (\<lambda>sz. S3Head ''bkt''
                 (s3_key_of sz (base_file_name_of ''source_image/My Photo (1).png'' (uuid4 sample_env))
                    (save_ext_of (file_ext_of ''source_image/My Photo (1).png'')))) sizes \<and>
   filter is_upload (issued processed_world (snd (lambda_handler sample_env processed_world sample_event))) = [] \<and>
   (\<exists>r. fst (lambda_handler sample_env processed_world sample_event) =
           Returned \<lparr>statusCode = 200, body = Summary r\<rparr> \<and> processed_files r = [])"
proof -
  have d: "download_fault sample_env ''bkt'' ''source_image/My Photo (1).png'' = None"
    by (simp add: sample_env_def)
  have s: "s3_objects processed_world (''bkt'', ''source_image/My Photo (1).png'') = Some (SourceBytes 0)"
    by code_simp
  have l: "list_all (\<lambda>sz. head_fault sample_env ''bkt''
                     (s3_key_of sz (base_file_name_of ''source_image/My Photo (1).png'' (uuid4 sample_env))
                        (save_ext_of (file_ext_of ''source_image/My Photo (1).png''))) = None \<and>
                  s3_objects processed_world (''bkt'',
                     s3_key_of sz (base_file_name_of ''source_image/My Photo (1).png'' (uuid4 sample_env))
                        (save_ext_of (file_ext_of ''source_image/My Photo (1).png''))) \<noteq> None) sizes"
    by code_simp
  note ok = source_fetched_once_up_front [OF sample_event_bucket sample_event_key sample_key_prefix
      sample_ext_in, of processed_world]
  note full = source_fetched_once_up_front [OF sample_event_bucket no_scratch_event_key sample_key_prefix
      sample_ext_in, of processed_world]
  from full no_scratch_mkdtemp
  have f: "lambda_handler full_disk_env processed_world sample_event =
             (Raised (OSError ''No space left on device''), processed_world) \<and>
           issued processed_world (snd (lambda_handler full_disk_env processed_world sample_event)) = []"
    by blast
  from ok sample_mkdtemp d s l
  have g: "issued processed_world (snd (lambda_handler sample_env processed_world sample_event)) =
     S3Download (PStr ''bkt'') ''source_image/My Photo (1).png''
       (path_join ''/tmp/tmpk3x9'' (basename ''source_image/My Photo (1).png'')) #
     map (\<lambda>sz. S3Head ''bkt''
                 (s3_key_of sz (base_file_name_of ''source_image/My Photo (1).png'' (uuid4 sample_env))
                    (save_ext_of (file_ext_of ''source_image/My Photo (1).png'')))) sizes \<and>
   filter is_upload (issued processed_world (snd (lambda_handler sample_env processed_world sample_event))) = [] \<and>
   (\<exists>r. fst (lambda_handler sample_env processed_world sample_event) =
           Returned \<lparr>statusCode = 200, body = Summary r\<rparr> \<and> processed_files r = [])"
    by blast
  from f g d s l sample_event_bucket sample_event_key no_scratch_event_key sample_key_prefix
    sample_ext_in sample_mkdtemp no_scratch_mkdtemp
  show ?thesis by simp
qed

text \<open>
  C1 as stated fails: with all four outputs in place the handler still downloads the
  source. The log of the invocation is one download followed by the four existence checks.
\<close>

theorem lazy_fetch_counterexample:
  "s3_objects processed_world (''bkt'', sample_output_key ''200'') = Some (SourceBytes 1) \<and>
   s3_objects processed_world (''bkt'', sample_output_key ''300'') = Some (SourceBytes 2) \<and>
   s3_objects processed_world (''bkt'', sample_output_key ''500'') = Some (SourceBytes 3) \<and>
   s3_objects processed_world (''bkt'', sample_output_key ''1000'') = Some (SourceBytes 4) \<and>
   calls (snd (lambda_handler sample_env processed_world sample_event)) =
     [S3Download (PStr ''bkt'') ''source_image/My Photo (1).png'' ''/tmp/tmpk3x9/My Photo (1).png'',
      S3Head ''bkt'' (sample_output_key ''200''),
      S3Head ''bkt'' (sample_output_key ''300''),
      S3Head ''bkt'' (sample_output_key ''500''),
      S3Head ''bkt'' (sample_output_key ''1000'')] \<and>
   length (filter is_download (calls (snd (lambda_handler sample_env processed_world sample_event)))) = 1"
  by code_simp

subsection \<open>The outcomes of the existence check\<close>

lemma process_sizes_append:
  "process_sizes E b td lip base ext fext (xs @ ys) w acc =
     (case process_sizes E b td lip base ext fext xs w acc of
        (Inl e, w') \<Rightarrow> (Inl e, w')
      | (Inr acc', w') \<Rightarrow> process_sizes E b td lip base ext fext ys w' acc')"
proof (induction xs arbitrary: w acc)
  case Nil
  show ?case by simp
next
  case (Cons x xs)
  obtain r w1 where lb: "loop_body E b td lip base ext fext x w acc = (r, w1)"
    by (cases "loop_body E b td lip base ext fext x w acc")
  show ?case
  proof (cases r)
    case (Inl e)
    with lb show ?thesis by simp
  next
    case (Inr acc')
    with lb Cons.IH [of w1 acc'] show ?thesis by simp
  qed
qed

lemma upload_file_ok_file:
  "upload_file E w f b k = (Inr u, w') \<Longrightarrow> map_of (files w') f \<noteq> None"
  by (auto simp: upload_file_def Let_def split: option.splits)

lemma loop_body_skip:
  assumes "head_object E w b (s3_key_of sz base ext) = (Inr u, w1)"
  shows "loop_body E b td lip base ext fext sz w acc = (Inr acc, w1)"
  using assms by (simp add: loop_body_def Let_def)

lemma loop_body_abort:
  assumes "head_object E w b (s3_key_of sz base ext) = (Inl e, w1)" and "\<not> is_not_found e"
  shows "loop_body E b td lip base ext fext sz w acc = (Inl e, w1)"
  using assms by (simp add: loop_body_def Let_def not_404_iff)

lemma loop_body_not_found:
  assumes "head_object E w b (s3_key_of sz base ext) = (Inl e, w1)" and "is_not_found e"
  shows "loop_body E b td lip base ext fext sz w acc =
     (case compress_and_create_thumbnail E w1 lip (path_join td (output_file_name_of sz base ext))
             sz fext default_quality of
        (Inl e', w2) \<Rightarrow> (Inl e', w2)
      | (Inr u, w2) \<Rightarrow>
       (case upload_file E w2 (path_join td (output_file_name_of sz base ext)) b (s3_key_of sz base ext) of
          (Inl e', w3) \<Rightarrow> (Inl e', w3)
        | (Inr u', w3) \<Rightarrow>
            (Inr (acc @ [location_of b base ext sz]),
             snd (remove_file w3 (path_join td (output_file_name_of sz base ext))))))"
proof -
  let ?lop = "path_join td (output_file_name_of sz base ext)"
  let ?key = "s3_key_of sz base ext"
  obtain r2 w2 where c: "compress_and_create_thumbnail E w1 lip ?lop sz fext default_quality = (r2, w2)"
    by (cases "compress_and_create_thumbnail E w1 lip ?lop sz fext default_quality")
  show ?thesis
  proof (cases r2)
    case (Inl e2)
    with assms c show ?thesis by (simp add: loop_body_def Let_def not_404_iff)
  next
    case (Inr u2)
    obtain r3 w3 where up: "upload_file E w2 ?lop b ?key = (r3, w3)"
      by (cases "upload_file E w2 ?lop b ?key")
    show ?thesis
    proof (cases r3)
      case (Inl e3)
      with assms c Inr up show ?thesis by (simp add: loop_body_def Let_def not_404_iff)
    next
      case (Inr u3)
      with up have f: "map_of (files w3) ?lop \<noteq> None" by (auto dest: upload_file_ok_file)
      then have pe: "path_exists w3 ?lop" by (simp add: path_exists_def)
      from f obtain w4 where "remove_file w3 ?lop = (Inr (), w4)"
        by (simp add: remove_file_def)
      with pe assms c \<open>r2 = Inr u2\<close> up Inr show ?thesis
        by (simp add: loop_body_def Let_def not_404_iff location_of_def)
    qed
  qed
qed

lemma try_body_loop_error:
  assumes "download_file E w (PStr b) k lip = (Inr u, w1)"
    and "process_sizes E b td lip base ext fext sizes w1 [] = (Inl e, w2)"
  shows "try_body E w (PStr b) k td lip file_name base ext fext = (Inl e, w2)"
  using assms by (simp add: try_body_def)

text \<open>
  C4, as the code has it. Take any pass of the loop: the sizes in \<open>pre\<close> are done, \<open>sz\<close>
  is next, \<open>post\<close> follows. The pass begins with the existence check, and that is its only
  storage call unless the answer is "not found". If the check succeeds (the output
  exists), the loop goes on to \<open>post\<close> with the list of locations unchanged: the size is
  skipped. If the check raises a 404 \<open>ClientError\<close>, the size is processed: thumbnail, upload,
  location appended, scratch file removed, then \<open>post\<close>. If it raises anything else, the
  loop ends there with that exception, and the handler, entered with an event that led to
  this loop, returns status 500 with the text of the exception, in the state right after the
  check: \<open>post\<close> is never looked at.
\<close>

theorem existence_check_outcomes:
  assumes "process_sizes E b td lip base ext fext pre w acc0 = (Inr acc, w2)"
    and "head_object E w2 b (s3_key_of sz base ext) = (r, w3)"
  shows "issued w2 w3 = [S3Head b (s3_key_of sz base ext)] \<and>
    (r = Inr () \<longrightarrow>
       process_sizes E b td lip base ext fext (pre @ sz # post) w acc0 =
         process_sizes E b td lip base ext fext post w3 acc) \<and>
    (\<forall>e. r = Inl e \<and> is_not_found e \<longrightarrow>
       process_sizes E b td lip base ext fext (pre @ sz # post) w acc0 =
         (case compress_and_create_thumbnail E w3 lip (path_join td (output_file_name_of sz base ext))
                 sz fext default_quality of
            (Inl e', w4) \<Rightarrow> (Inl e', w4)
          | (Inr u, w4) \<Rightarrow>
           (case upload_file E w4 (path_join td (output_file_name_of sz base ext)) b
                   (s3_key_of sz base ext) of
              (Inl e', w5) \<Rightarrow> (Inl e', w5)
            | (Inr u', w5) \<Rightarrow>
                process_sizes E b td lip base ext fext post
                  (snd (remove_file w5 (path_join td (output_file_name_of sz base ext))))
                  (acc @ [location_of b base ext sz])))) \<and>
    (\<forall>e. r = Inl e \<and> \<not> is_not_found e \<longrightarrow>
       process_sizes E b td lip base ext fext (pre @ sz # post) w acc0 = (Inl e, w3) \<and>
       (\<forall>event w0 object_key.
          event_bucket event = Some (PStr b) \<and> event_key E event = Some object_key \<and>
          startswith object_key ''source_image/'' \<and>
          file_ext_of object_key \<in> set supported_exts \<and> mkdtemp E = Inr td \<and>
          lip = path_join td (basename object_key) \<and>
          base = base_file_name_of object_key (uuid4 E) \<and>
          ext = save_ext_of (file_ext_of object_key) \<and> fext = file_ext_of object_key \<and>
          download_file E (w0\<lparr>dirs := td # dirs w0\<rparr>) (PStr b) object_key lip = (Inr (), w) \<and>
          acc0 = [] \<and> pre @ sz # post = sizes
          \<longrightarrow> lambda_handler E w0 event =
                (Returned \<lparr>statusCode = 500, body = Text (str_exn e)\<rparr>, w3)))"
proof -
  let ?P = "process_sizes E b td lip base ext fext"
  let ?key = "s3_key_of sz base ext"
  let ?lop = "path_join td (output_file_name_of sz base ext)"
  have app: "?P (pre @ sz # post) w acc0 = ?P (sz # post) w2 acc"
    by (simp add: process_sizes_append assms(1))
  have i: "issued w2 w3 = [S3Head b ?key]"
    using head_object_calls [OF assms(2)] by (simp add: issued_def)
  have skip: "r = Inr () \<longrightarrow> ?P (pre @ sz # post) w acc0 = ?P post w3 acc"
  proof
    assume "r = Inr ()"
    with assms(2) have "head_object E w2 b ?key = (Inr (), w3)" by simp
    from loop_body_skip [OF this, of td lip fext acc] show "?P (pre @ sz # post) w acc0 = ?P post w3 acc"
      unfolding app by simp
  qed
  have nf: "\<forall>e. r = Inl e \<and> is_not_found e \<longrightarrow>
       ?P (pre @ sz # post) w acc0 =
         (case compress_and_create_thumbnail E w3 lip ?lop sz fext default_quality of
            (Inl e', w4) \<Rightarrow> (Inl e', w4)
          | (Inr u, w4) \<Rightarrow>
           (case upload_file E w4 ?lop b ?key of
              (Inl e', w5) \<Rightarrow> (Inl e', w5)
            | (Inr u', w5) \<Rightarrow>
                ?P post (snd (remove_file w5 ?lop)) (acc @ [location_of b base ext sz])))"
  proof (intro allI impI, elim conjE)
    fix e assume r: "r = Inl e" and n: "is_not_found e"
    from assms(2) r have h: "head_object E w2 b ?key = (Inl e, w3)" by simp
    note lb = loop_body_not_found [OF h n, of td lip fext acc]
    show "?P (pre @ sz # post) w acc0 =
         (case compress_and_create_thumbnail E w3 lip ?lop sz fext default_quality of
            (Inl e', w4) \<Rightarrow> (Inl e', w4)
          | (Inr u, w4) \<Rightarrow>
           (case upload_file E w4 ?lop b ?key of
              (Inl e', w5) \<Rightarrow> (Inl e', w5)
            | (Inr u', w5) \<Rightarrow>
                ?P post (snd (remove_file w5 ?lop)) (acc @ [location_of b base ext sz])))"
      unfolding app by (simp add: lb split: prod.splits sum.splits)
  qed
  have ab: "\<And>e. r = Inl e \<Longrightarrow> \<not> is_not_found e \<Longrightarrow> ?P (pre @ sz # post) w acc0 = (Inl e, w3)"
  proof -
    fix e assume r: "r = Inl e" and n: "\<not> is_not_found e"
    from assms(2) r have h: "head_object E w2 b ?key = (Inl e, w3)" by simp
    from loop_body_abort [OF h n, of td lip fext acc] show "?P (pre @ sz # post) w acc0 = (Inl e, w3)"
      unfolding app by simp
  qed
  have hd: "\<forall>e. r = Inl e \<and> \<not> is_not_found e \<longrightarrow>
       ?P (pre @ sz # post) w acc0 = (Inl e, w3) \<and>
       (\<forall>event w0 object_key.
          event_bucket event = Some (PStr b) \<and> event_key E event = Some object_key \<and>
          startswith object_key ''source_image/'' \<and>
          file_ext_of object_key \<in> set supported_exts \<and> mkdtemp E = Inr td \<and>
          lip = path_join td (basename object_key) \<and>
          base = base_file_name_of object_key (uuid4 E) \<and>
          ext = save_ext_of (file_ext_of object_key) \<and> fext = file_ext_of object_key \<and>
          download_file E (w0\<lparr>dirs := td # dirs w0\<rparr>) (PStr b) object_key lip = (Inr (), w) \<and>
          acc0 = [] \<and> pre @ sz # post = sizes
          \<longrightarrow> lambda_handler E w0 event =
                (Returned \<lparr>statusCode = 500, body = Text (str_exn e)\<rparr>, w3))"
  proof (intro allI impI conjI; elim conjE)
    fix e
    assume "r = Inl e" "\<not> is_not_found e"
    then show "?P (pre @ sz # post) w acc0 = (Inl e, w3)" by (rule ab)
  next
    fix e event w0 object_key
    assume r: "r = Inl e" "\<not> is_not_found e"
      and a: "event_bucket event = Some (PStr b)" "event_key E event = Some object_key"
        "startswith object_key ''source_image/''" "file_ext_of object_key \<in> set supported_exts"
        "mkdtemp E = Inr td"
      and n: "lip = path_join td (basename object_key)"
        "base = base_file_name_of object_key (uuid4 E)"
        "ext = save_ext_of (file_ext_of object_key)" "fext = file_ext_of object_key"
      and d: "download_file E (w0\<lparr>dirs := td # dirs w0\<rparr>) (PStr b) object_key lip = (Inr (), w)"
      and z: "acc0 = []" "pre @ sz # post = sizes"
    from ab [OF r] have p: "?P sizes w [] = (Inl e, w3)" unfolding z .
    note t = try_body_loop_error [OF d p, of "basename object_key"]
    have "try_body E (w0\<lparr>dirs := td # dirs w0\<rparr>) (PStr b) object_key td
            (path_join td (basename object_key)) (basename object_key)
            (base_file_name_of object_key (uuid4 E)) (save_ext_of (file_ext_of object_key))
            (file_ext_of object_key) = (Inl e, w3)"
      using t unfolding n .
    then show "lambda_handler E w0 event = (Returned \<lparr>statusCode = 500, body = Text (str_exn e)\<rparr>, w3)"
      by (simp add: lambda_handler_accepted [OF a, of w0])
  qed
  show ?thesis
    apply (rule conjI)
     apply (rule i)
    apply (rule conjI)
     apply (rule skip)
    apply (rule conjI)
     apply (rule nf)
    apply (rule hd)
    done
qed

lemma sample_names:
  "''/tmp/tmpk3x9/My Photo (1).png'' = path_join ''/tmp/tmpk3x9'' (basename ''source_image/My Photo (1).png'')"
  "''My_Photo__1__deadbeef'' = base_file_name_of ''source_image/My Photo (1).png'' (uuid4 forbidden_env)"
  "''.png'' = save_ext_of (file_ext_of ''source_image/My Photo (1).png'')"
  "''.png'' = file_ext_of ''source_image/My Photo (1).png''"
  by code_simp+

lemma pair_fst_snd: "fst p = a \<Longrightarrow> p = (a, snd p)"
  by (cases p) simp

theorem existence_check_outcomes_witness:
  "fst (head_object sample_env processed_world ''bkt'' (s3_key_of 200 ''My_Photo__1__deadbeef'' ''.png'')) = Inr () \<and>
   process_sizes sample_env ''bkt'' ''/tmp/tmpk3x9'' ''/tmp/tmpk3x9/My Photo (1).png''
       ''My_Photo__1__deadbeef'' ''.png'' ''.png'' ([] @ 200 # [300, 500, 1000]) processed_world [] =
     process_sizes sample_env ''bkt'' ''/tmp/tmpk3x9'' ''/tmp/tmpk3x9/My Photo (1).png''
       ''My_Photo__1__deadbeef'' ''.png'' ''.png'' [300, 500, 1000]
       (snd (head_object sample_env processed_world ''bkt'' (s3_key_of 200 ''My_Photo__1__deadbeef'' ''.png''))) [] \<and>
   fst (head_object sample_env fetched_world ''bkt'' (s3_key_of 200 ''My_Photo__1__deadbeef'' ''.png'')) = Inl not_found \<and>
   is_not_found not_found \<and>
   process_sizes sample_env ''bkt'' ''/tmp/tmpk3x9'' ''/tmp/tmpk3x9/My Photo (1).png''
       ''My_Photo__1__deadbeef'' ''.png'' ''.png'' ([] @ 200 # [300, 500, 1000]) fetched_world [] =
     (case compress_and_create_thumbnail sample_env
             (snd (head_object sample_env fetched_world ''bkt'' (s3_key_of 200 ''My_Photo__1__deadbeef'' ''.png'')))
             ''/tmp/tmpk3x9/My Photo (1).png''
             (path_join ''/tmp/tmpk3x9'' (output_file_name_of 200 ''My_Photo__1__deadbeef'' ''.png''))
             200 ''.png'' default_quality of
        (Inl e', w4) \<Rightarrow> (Inl e', w4)
      | (Inr u, w4) \<Rightarrow>
       (case upload_file sample_env w4
               (path_join ''/tmp/tmpk3x9'' (output_file_name_of 200 ''My_Photo__1__deadbeef'' ''.png''))
               ''bkt'' (s3_key_of 200 ''My_Photo__1__deadbeef'' ''.png'') of
          (Inl e', w5) \<Rightarrow> (Inl e', w5)
        | (Inr u', w5) \<Rightarrow>
            process_sizes sample_env ''bkt'' ''/tmp/tmpk3x9'' ''/tmp/tmpk3x9/My Photo (1).png''
              ''My_Photo__1__deadbeef'' ''.png'' ''.png'' [300, 500, 1000]
              (snd (remove_file w5
                 (path_join ''/tmp/tmpk3x9'' (output_file_name_of 200 ''My_Photo__1__deadbeef'' ''.png''))))
              ([] @ [location_of ''bkt'' ''My_Photo__1__deadbeef'' ''.png'' 200]))) \<and>
   fst (process_sizes forbidden_env ''bkt'' ''/tmp/tmpk3x9'' ''/tmp/tmpk3x9/My Photo (1).png''
          ''My_Photo__1__deadbeef'' ''.png'' ''.png'' [200] fetched_world []) =
     Inr [''s3://bkt/processed_image/My_Photo__1__deadbeef/200_My_Photo__1__deadbeef.png''] \<and>
   fst (head_object forbidden_env after_200_world ''bkt'' (s3_key_of 300 ''My_Photo__1__deadbeef'' ''.png'')) =
     Inl (ClientError ''403'' ''An error occurred (403) when calling the HeadObject operation: Forbidden'') \<and>
   \<not> is_not_found (ClientError ''403'' ''An error occurred (403) when calling the HeadObject operation: Forbidden'') \<and>
   event_bucket sample_event = Some (PStr ''bkt'') \<and>
   event_key forbidden_env sample_event = Some ''source_image/My Photo (1).png'' \<and>
   startswith ''source_image/My Photo (1).png'' ''source_image/'' \<and>
   file_ext_of ''source_image/My Photo (1).png'' \<in> set supported_exts \<and>
   mkdtemp forbidden_env = Inr ''/tmp/tmpk3x9'' \<and>
   fst (download_file forbidden_env (sample_world\<lparr>dirs := ''/tmp/tmpk3x9'' # dirs sample_world\<rparr>) (PStr ''bkt'')
          ''source_image/My Photo (1).png'' ''/tmp/tmpk3x9/My Photo (1).png'') = Inr () \<and>
   [200] @ 300 # [500, 1000] = sizes \<and>
   lambda_handler forbidden_env sample_world sample_event =
     (Returned \<lparr>statusCode = 500,
        body = Text ''An error occurred (403) when calling the HeadObject operation: Forbidden''\<rparr>,
      refused_world)"
proof -
  let ?td = "''/tmp/tmpk3x9''" and ?lip = "''/tmp/tmpk3x9/My Photo (1).png''"
  let ?base = "''My_Photo__1__deadbeef''" and ?ext = "''.png''"
  let ?k200 = "s3_key_of 200 ?base ?ext" and ?k300 = "s3_key_of 300 ?base ?ext"
  let ?e403 = "ClientError ''403'' ''An error occurred (403) when calling the HeadObject operation: Forbidden''"
  \<comment> \<open>the output exists: the size is skipped\<close>
  have s1: "process_sizes sample_env ''bkt'' ?td ?lip ?base ?ext ?ext [] processed_world [] = (Inr [], processed_world)"
    by simp
  have s2f: "fst (head_object sample_env processed_world ''bkt'' ?k200) = Inr ()"
    by code_simp
  note s2 = pair_fst_snd [OF s2f]
  note skip = existence_check_outcomes [OF s1 s2, of "[300, 500, 1000]", THEN conjunct2, THEN conjunct1, rule_format, OF refl]
  \<comment> \<open>the output is missing: the size is processed\<close>
  have n1: "process_sizes sample_env ''bkt'' ?td ?lip ?base ?ext ?ext [] fetched_world [] = (Inr [], fetched_world)"
    by simp
  have n2f: "fst (head_object sample_env fetched_world ''bkt'' ?k200) = Inl not_found"
    by code_simp
  note n2 = pair_fst_snd [OF n2f]
  have n3: "is_not_found not_found" by (simp add: not_found_def)
  note nf = existence_check_outcomes [OF n1 n2, of "[300, 500, 1000]", THEN conjunct2, THEN conjunct2,
      THEN conjunct1, rule_format, OF conjI, OF refl n3]
  \<comment> \<open>the check is refused: the invocation ends\<close>
  have a1f: "fst (process_sizes forbidden_env ''bkt'' ?td ?lip ?base ?ext ?ext [200] fetched_world []) =
     Inr [''s3://bkt/processed_image/My_Photo__1__deadbeef/200_My_Photo__1__deadbeef.png'']"
    by code_simp
  have a1: "process_sizes forbidden_env ''bkt'' ?td ?lip ?base ?ext ?ext [200] fetched_world [] =
     (Inr [''s3://bkt/processed_image/My_Photo__1__deadbeef/200_My_Photo__1__deadbeef.png''], after_200_world)"
    using pair_fst_snd [OF a1f] by (simp add: after_200_world_def)
  have k: "?k300 = sample_output_key ''300''" by code_simp
  have a2f: "fst (head_object forbidden_env after_200_world ''bkt'' ?k300) = Inl ?e403"
    by code_simp
  have a2: "head_object forbidden_env after_200_world ''bkt'' ?k300 = (Inl ?e403, refused_world)"
    using pair_fst_snd [OF a2f] by (simp add: refused_world_def k)
  have a3: "\<not> is_not_found ?e403" by simp
  have h2: "event_key forbidden_env sample_event = Some ''source_image/My Photo (1).png''"
    by code_simp
  have h5: "mkdtemp forbidden_env = Inr ?td" by (simp add: forbidden_env_def sample_env_def)
  have df: "fst (download_file forbidden_env (sample_world\<lparr>dirs := ?td # dirs sample_world\<rparr>) (PStr ''bkt'')
          ''source_image/My Photo (1).png'' ?lip) = Inr ()"
    by code_simp
  have dw: "snd (download_file forbidden_env (sample_world\<lparr>dirs := ?td # dirs sample_world\<rparr>) (PStr ''bkt'')
          ''source_image/My Photo (1).png'' ?lip) = fetched_world"
    by (simp add: fetched_world_def download_file_def forbidden_env_def sample_world_def)
  have d: "download_file forbidden_env (sample_world\<lparr>dirs := ?td # dirs sample_world\<rparr>) (PStr ''bkt'')
          ''source_image/My Photo (1).png'' ?lip = (Inr (), fetched_world)"
    using pair_fst_snd [OF df] dw by simp
  have sz: "[200] @ 300 # [500, 1000] = sizes" by (simp add: sizes_def)
  note ab = existence_check_outcomes [OF a1 a2, of "[500, 1000]", THEN conjunct2, THEN conjunct2,
      THEN conjunct2, rule_format, OF conjI, OF refl a3, THEN conjunct2, rule_format,
      of sample_event "''source_image/My Photo (1).png''" sample_world]
  have "lambda_handler forbidden_env sample_world sample_event =
     (Returned \<lparr>statusCode = 500, body = Text (str_exn ?e403)\<rparr>, refused_world)"
    by (rule ab) (intro conjI sample_event_bucket h2 sample_key_prefix sample_key_ext h5
        sample_names d refl sz)
  then have handler: "lambda_handler forbidden_env sample_world sample_event =
     (Returned \<lparr>statusCode = 500,
        body = Text ''An error occurred (403) when calling the HeadObject operation: Forbidden''\<rparr>,
      refused_world)"
    by simp
  show ?thesis
    by (intro conjI s2f skip n2f n3 nf a1f a2f a3 sample_event_bucket h2 sample_key_prefix
        sample_key_ext h5 df sz handler)
qed

text \<open>
  C4 as stated fails in its first half: a 404 answer is what makes the handler process the
  size. In the sample invocation the check for the 200 pixel output answers 404, and the
  next call uploads that output.
\<close>

theorem not_found_is_processed_counterexample:
  "fst (head_object sample_env fetched_world ''bkt'' (sample_output_key ''200'')) =
     Inl (ClientError ''404'' ''An error occurred (404) when calling the HeadObject operation: Not Found'') \<and>
   take 3 (calls (snd (lambda_handler sample_env sample_world sample_event))) =
     [S3Download (PStr ''bkt'') ''source_image/My Photo (1).png'' ''/tmp/tmpk3x9/My Photo (1).png'',
      S3Head ''bkt'' (sample_output_key ''200''),
      S3Upload ''/tmp/tmpk3x9/200_My_Photo__1__deadbeef.png'' ''bkt'' (sample_output_key ''200'')]"
  by code_simp

subsection \<open>Scratch storage after a failure\<close>

text \<open>
  C7 does not hold of the code. The \<open>except\<close> branch (lines 120 to 125) only builds the
  response; the removal of the input file and of the directory (lines 98 to 106) stands at
  the end of the \<open>try\<close> body and runs on success only. Here the downloaded bytes are not an
  image: the handler answers 500, and the scratch directory and the downloaded file are
  still there. The same event in the environment where nothing fails leaves neither.
\<close>

theorem scratch_left_behind_on_failure:
  "fst (lambda_handler corrupt_env sample_world sample_event) =
     Returned \<lparr>statusCode = 500, body = Text ''cannot identify image file''\<rparr> \<and>
   dirs (snd (lambda_handler corrupt_env sample_world sample_event)) = [''/tmp/tmpk3x9''] \<and>
   files (snd (lambda_handler corrupt_env sample_world sample_event)) =
     [(''/tmp/tmpk3x9/My Photo (1).png'', SourceBytes 0)] \<and>
   dirs (snd (lambda_handler sample_env sample_world sample_event)) = [] \<and>
   files (snd (lambda_handler sample_env sample_world sample_event)) = []"
  by code_simp

subsection \<open>The format of the output\<close>

lemma resize_mode: "resize E img sz = Inr r \<Longrightarrow> img_mode r = img_mode img"
  by (auto simp: resize_def split: if_splits option.splits)

lemma save_ok_file:
  assumes "save E w img path fmt q opt = (Inr u, w')"
  shows "map_of (files w') path =
           Some (Encoded \<lparr>enc_image = img, enc_format = fmt, enc_quality = q, enc_optimize = opt\<rparr>)"
  using assms by (auto simp: save_def update_conv' split: option.splits)

text \<open>
  C3. Whenever \<open>compress_and_create_thumbnail\<close>, called as the handler calls it, returns
  normally, the file at the output path is what \<open>save\<close> wrote with \<open>optimize=True\<close>: in PNG
  format when the lowercased extension is .png (whatever the mode of the image), and
  otherwise in JPEG format at quality 70, the image converted to mode RGB when the resized
  image has mode RGBA or P and left in its mode when not.
\<close>

theorem format_rule:
  assumes "map_of (files w) image_path = Some c" and "image_open E c = Inr img"
    and "compress_and_create_thumbnail E w image_path output_path width original_ext
           default_quality = (Inr u, w')"
  shows "\<exists>enc. map_of (files w') output_path = Some (Encoded enc) \<and> enc_optimize enc \<and>
           (lower original_ext = ''.png'' \<longrightarrow>
              enc_format enc = ''PNG'' \<and> enc_quality enc = None \<and>
              img_mode (enc_image enc) = img_mode img) \<and>
           (lower original_ext \<noteq> ''.png'' \<longrightarrow>
              enc_format enc = ''JPEG'' \<and> enc_quality enc = Some 70 \<and>
              img_mode (enc_image enc) =
                (if img_mode img = ''RGBA'' \<or> img_mode img = ''P'' then ''RGB'' else img_mode img))"
proof -
  from assms obtain h where h: "new_height_of width (img_size img) = Inr h"
    by (auto simp: compress_and_create_thumbnail_def split: sum.splits)
  from assms h obtain r where r: "resize E img (width, h) = Inr r"
    by (auto simp: compress_and_create_thumbnail_def split: sum.splits)
  note m = resize_mode [OF r]
  show ?thesis
  proof (cases "lower original_ext = ''.png''")
    case True
    with assms h r have "save E w r output_path ''PNG'' None True = (Inr u, w')"
      by (simp add: compress_and_create_thumbnail_def)
    from save_ok_file [OF this] True m show ?thesis by simp
  next
    case False
    let ?r' = "if img_mode r \<in> set [''RGBA'', ''P''] then convert r ''RGB'' else r"
    from False assms h r have "save E w ?r' output_path ''JPEG'' (Some default_quality) True = (Inr u, w')"
      by (simp add: compress_and_create_thumbnail_def Let_def)
    from save_ok_file [OF this] False m show ?thesis
      by (auto simp: default_quality_def convert_def)
  qed
qed

theorem format_rule_witness:
  "map_of (files fetched_world) ''/tmp/tmpk3x9/My Photo (1).png'' = Some (SourceBytes 0) \<and>
   image_open sample_env (SourceBytes 0) = Inr \<lparr>img_size = (1000, 999), img_mode = ''RGBA''\<rparr> \<and>
   fst (compress_and_create_thumbnail sample_env fetched_world ''/tmp/tmpk3x9/My Photo (1).png''
          ''/tmp/tmpk3x9/200_photo.jpg'' 200 ''.JPG'' default_quality) = Inr () \<and>
   lower ''.JPG'' \<noteq> ''.png'' \<and>
   (\<exists>enc. map_of (files (snd (compress_and_create_thumbnail sample_env fetched_world
                ''/tmp/tmpk3x9/My Photo (1).png'' ''/tmp/tmpk3x9/200_photo.jpg'' 200 ''.JPG''
                default_quality))) ''/tmp/tmpk3x9/200_photo.jpg'' = Some (Encoded enc) \<and>
      enc_optimize enc \<and> enc_format enc = ''JPEG'' \<and> enc_quality enc = Some 70 \<and>
      img_mode (enc_image enc) = ''RGB'') \<and>
   fst (compress_and_create_thumbnail sample_env fetched_world ''/tmp/tmpk3x9/My Photo (1).png''
          ''/tmp/tmpk3x9/200_photo.png'' 200 ''.PNG'' default_quality) = Inr () \<and>
   lower ''.PNG'' = ''.png'' \<and>
   (\<exists>enc. map_of (files (snd (compress_and_create_thumbnail sample_env fetched_world
                ''/tmp/tmpk3x9/My Photo (1).png'' ''/tmp/tmpk3x9/200_photo.png'' 200 ''.PNG''
                default_quality))) ''/tmp/tmpk3x9/200_photo.png'' = Some (Encoded enc) \<and>
      enc_optimize enc \<and> enc_format enc = ''PNG'' \<and> enc_quality enc = None \<and>
      img_mode (enc_image enc) = ''RGBA'')"
proof -
  have h1: "map_of (files fetched_world) ''/tmp/tmpk3x9/My Photo (1).png'' = Some (SourceBytes 0)"
    by code_simp
  have h2: "image_open sample_env (SourceBytes 0) = Inr \<lparr>img_size = (1000, 999), img_mode = ''RGBA''\<rparr>"
    by (simp add: sample_env_def)
  have h3f: "fst (compress_and_create_thumbnail sample_env fetched_world ''/tmp/tmpk3x9/My Photo (1).png''
          ''/tmp/tmpk3x9/200_photo.jpg'' 200 ''.JPG'' default_quality) = Inr ()"
    by code_simp
  have x: "lower ''.JPG'' \<noteq> ''.png''"
    by code_simp
  from format_rule [OF h1 h2 pair_fst_snd [OF h3f]] x
  have j: "\<exists>enc. map_of (files (snd (compress_and_create_thumbnail sample_env fetched_world
                ''/tmp/tmpk3x9/My Photo (1).png'' ''/tmp/tmpk3x9/200_photo.jpg'' 200 ''.JPG''
                default_quality))) ''/tmp/tmpk3x9/200_photo.jpg'' = Some (Encoded enc) \<and>
      enc_optimize enc \<and> enc_format enc = ''JPEG'' \<and> enc_quality enc = Some 70 \<and>
      img_mode (enc_image enc) = ''RGB''"
    by auto
  have p3f: "fst (compress_and_create_thumbnail sample_env fetched_world ''/tmp/tmpk3x9/My Photo (1).png''
          ''/tmp/tmpk3x9/200_photo.png'' 200 ''.PNG'' default_quality) = Inr ()"
    by code_simp
  have y: "lower ''.PNG'' = ''.png''"
    by code_simp
  from format_rule [OF h1 h2 pair_fst_snd [OF p3f]] y
  have p: "\<exists>enc. map_of (files (snd (compress_and_create_thumbnail sample_env fetched_world
                ''/tmp/tmpk3x9/My Photo (1).png'' ''/tmp/tmpk3x9/200_photo.png'' 200 ''.PNG''
                default_quality))) ''/tmp/tmpk3x9/200_photo.png'' = Some (Encoded enc) \<and>
      enc_optimize enc \<and> enc_format enc = ''PNG'' \<and> enc_quality enc = None \<and>
      img_mode (enc_image enc) = ''RGBA''"
    by auto
  from h1 h2 h3f x j p3f y p show ?thesis by (intro conjI)
qed

subsection \<open>The height of the resized image\<close>

text \<open>Rounding a quotient to the nearest double, and what it costs.\<close>

lemma rne_div_error:
  assumes "0 < d"
  shows "\<bar>of_int (rne_div n d) - (of_int n / of_int d :: rat)\<bar> \<le> 1 / 2"
proof -
  define q where "q = n div d"
  define r where "r = n mod d"
  have n: "n = q * d + r" by (simp add: q_def r_def)
  have r: "0 \<le> r" "r < d" using assms by (simp_all add: r_def)
  have d: "(0::rat) < of_int d" using assms by simp
  have x: "(of_int n / of_int d :: rat) = of_int q + of_int r / of_int d"
    using d by (simp add: n field_simps)
  have f: "(0::rat) \<le> of_int r / of_int d" "(of_int r / of_int d :: rat) < 1"
    using r d by simp_all
  consider "2 * r < d" | "2 * r > d" | "2 * r = d" by linarith
  then show ?thesis
  proof cases
    case 1
    then have "rne_div n d = q" by (simp add: rne_div_def Let_def q_def r_def)
    moreover from 1 have "(of_int r / of_int d :: rat) < 1 / 2"
      using d by (simp add: field_simps)
    ultimately show ?thesis using f x by simp
  next
    case 2
    then have "rne_div n d = q + 1" by (simp add: rne_div_def Let_def q_def r_def)
    moreover from 2 have "(of_int r / of_int d :: rat) > 1 / 2"
      using d by (simp add: field_simps)
    ultimately show ?thesis using f x by simp
  next
    case 3
    then have "rne_div n d = q \<or> rne_div n d = q + 1"
      by (simp add: rne_div_def Let_def q_def r_def)
    moreover from 3 have "(of_int r / of_int d :: rat) = 1 / 2"
      using d by (simp add: field_simps)
    ultimately show ?thesis using x by auto
  qed
qed

lemma rne_div_one: "rne_div n 1 = n"
  by (simp add: rne_div_def)

lemma powi_nat: "0 \<le> k \<Longrightarrow> (2::rat) powi k = 2 ^ nat k"
  by (simp add: power_int_def)

lemma powi_pos [simp]: "(0::rat) < 2 powi k"
  by (simp add: power_int_def)

lemma powi_Suc: "(2::rat) powi (k + 1) = 2 * 2 powi k"
  by (simp add: power_int_add)

lemma powi_mono: "j \<le> k \<Longrightarrow> (2::rat) powi j \<le> 2 powi k"
  by (rule power_int_increasing) simp_all

lemma powi_less_cancel: "(2::rat) powi j < 2 powi k \<Longrightarrow> j < k"
  by (metis linorder_not_less powi_mono)

lemma bitlen_powi:
  assumes "0 < x"
  shows "(2::rat) powi (bitlen x - 1) \<le> of_int x" "(of_int x :: rat) < 2 powi bitlen x"
proof -
  from bitlen_bounds [OF assms] have lo: "2 ^ nat (bitlen x - 1) \<le> x" and hi: "x < 2 ^ nat (bitlen x)"
    by simp_all
  have b: "1 \<le> bitlen x" using assms by (auto simp: bitlen_alt_def)
  from lo have "(of_int (2 ^ nat (bitlen x - 1)) :: rat) \<le> of_int x" by (simp only: of_int_le_iff)
  then show "(2::rat) powi (bitlen x - 1) \<le> of_int x" using b by (simp add: powi_nat)
  from hi have "(of_int x :: rat) < of_int (2 ^ nat (bitlen x))" by (simp only: of_int_less_iff)
  then show "(of_int x :: rat) < 2 powi bitlen x" using b by (simp add: powi_nat)
qed

lemma quot_test:
  assumes "0 < d"
  shows "(if 0 \<le> s then d * 2 ^ nat s \<le> n else d \<le> n * 2 ^ nat (- s))
           \<longleftrightarrow> (2::rat) powi s \<le> of_int n / of_int d"
proof -
  have d: "(0::rat) < of_int d" using assms by simp
  show ?thesis
  proof (cases "0 \<le> s")
    case True
    have "d * 2 ^ nat s \<le> n \<longleftrightarrow> (of_int (d * 2 ^ nat s) :: rat) \<le> of_int n"
      by (simp only: of_int_le_iff)
    also have "\<dots> \<longleftrightarrow> (2::rat) powi s \<le> of_int n / of_int d"
      using d True by (simp add: powi_nat field_simps)
    finally show ?thesis using True by simp
  next
    case False
    then have s: "(2::rat) powi s = 1 / 2 ^ nat (- s)"
      by (simp add: power_int_def field_simps)
    have "d \<le> n * 2 ^ nat (- s) \<longleftrightarrow> (of_int d :: rat) \<le> of_int (n * 2 ^ nat (- s))"
      by (simp only: of_int_le_iff)
    also have "\<dots> \<longleftrightarrow> (2::rat) powi s \<le> of_int n / of_int d"
      using d by (simp add: s field_simps)
    finally show ?thesis using False by simp
  qed
qed

lemma floor_log2_quot_bounds:
  assumes "0 < n" and "0 < d"
  shows "(2::rat) powi floor_log2_quot n d \<le> of_int n / of_int d"
    and "(of_int n / of_int d :: rat) < 2 powi (floor_log2_quot n d + 1)"
proof -
  define s where "s = bitlen n - bitlen d"
  have d: "(0::rat) < of_int d" and n: "(0::rat) < of_int n" using assms by simp_all
  note bn = bitlen_powi [OF assms(1)] and bd = bitlen_powi [OF assms(2)]
  have up: "(of_int n / of_int d :: rat) < 2 powi (s + 1)"
  proof -
    have "(of_int n / of_int d :: rat) < 2 powi bitlen n / 2 powi (bitlen d - 1)"
      using bn(2) bd(1) n d by (intro frac_less) simp_all
    also have "\<dots> = 2 powi (s + 1)"
      by (simp add: s_def power_int_diff [symmetric]) (simp add: algebra_simps)
    finally show ?thesis .
  qed
  have lo: "(2::rat) powi (s - 1) \<le> of_int n / of_int d"
  proof -
    have "(2::rat) powi (s - 1) = 2 powi (bitlen n - 1) / 2 powi bitlen d"
      by (simp add: s_def power_int_diff [symmetric]) (simp add: algebra_simps)
    also have "\<dots> \<le> of_int n / of_int d"
      using bn(1) bd(2) n d by (intro frac_le) simp_all
    finally show ?thesis .
  qed
  show "(2::rat) powi floor_log2_quot n d \<le> of_int n / of_int d"
    using lo quot_test [OF assms(2), of s n]
    by (auto simp: floor_log2_quot_def Let_def s_def [symmetric])
  show "(of_int n / of_int d :: rat) < 2 powi (floor_log2_quot n d + 1)"
    using up quot_test [OF assms(2), of s n]
    by (auto simp: floor_log2_quot_def Let_def s_def [symmetric])
qed

lemma bitlen_le:
  assumes "m < 2 ^ n"
  shows "bitlen m \<le> int n"
proof -
  have "nat m < 2 ^ n" using assms by (simp add: nat_less_iff)
  then have "floorlog 2 (nat m) \<le> n" by (intro floorlog_leI) simp_all
  then show ?thesis by (simp add: bitlen_def)
qed

lemma scaled_quot:
  assumes "0 < b"
  shows "(of_int (a * 2 ^ nat (- k)) / of_int (b * 2 ^ nat k) :: rat) =
           of_int a / of_int b * 2 powi (- k)"
proof (cases "0 \<le> k")
  case True
  then show ?thesis by (simp add: power_int_def field_simps)
next
  case False
  then show ?thesis by (simp add: power_int_def field_simps)
qed

lemma int_ge_of_rat_bound:
  assumes "\<bar>of_int m - (x::rat)\<bar> \<le> 1 / 2" and "of_int lo \<le> x"
  shows "lo \<le> m"
proof -
  from assms have "(of_int lo :: rat) - 1 / 2 \<le> of_int m" by linarith
  then have "(of_int lo - 1 :: rat) < of_int m" by linarith
  then have "(of_int (lo - 1) :: rat) < of_int m" by simp
  then have "lo - 1 < m" by (simp only: of_int_less_iff)
  then show ?thesis by simp
qed

lemma int_le_of_rat_bound:
  assumes "\<bar>of_int m - (x::rat)\<bar> \<le> 1 / 2" and "x \<le> of_int hi"
  shows "m \<le> hi"
proof -
  from assms have "(of_int m :: rat) \<le> of_int hi + 1 / 2" by linarith
  then have "(of_int m :: rat) < of_int (hi + 1)" by simp
  then have "m < hi + 1" by (simp only: of_int_less_iff)
  then show ?thesis by simp
qed

lemma round_quot_normal:
  assumes "0 < a" and "0 < b" and e: "e = floor_log2_quot a b"
    and lo: "- 1022 \<le> e" and hi: "e \<le> 1022"
  shows "\<exists>m. m = rne_div (a * 2 ^ nat (52 - e)) (b * 2 ^ nat (e - 52)) \<and>
           round_quot a b = Finite m (e - 52) \<and> 2 ^ 52 \<le> m \<and> m \<le> 2 ^ 53 \<and>
           \<bar>of_int m * 2 powi (e - 52) - (of_int a / of_int b :: rat)\<bar> \<le> 2 powi (e - 53)"
proof -
  define k where "k = e - 52"
  define N where "N = a * 2 ^ nat (- k)"
  define D where "D = b * 2 ^ nat k"
  define m where "m = rne_div N D"
  define q :: rat where "q = of_int a / of_int b"
  define X :: rat where "X = q * 2 powi (- k)"
  have D: "0 < D" using assms(2) by (simp add: D_def)
  have X: "(of_int N / of_int D :: rat) = X"
    unfolding N_def D_def X_def q_def by (rule scaled_quot [OF assms(2)])
  have err: "\<bar>of_int m - X\<bar> \<le> 1 / 2"
    using rne_div_error [OF D, of N] by (simp add: m_def X)
  from floor_log2_quot_bounds [OF assms(1,2)] e
  have q: "2 powi e \<le> q" "q < 2 powi (e + 1)" by (simp_all add: q_def)
  have p: "(2::rat) powi e * 2 powi (- k) = 2 ^ 52" "(2::rat) powi (e + 1) * 2 powi (- k) = 2 ^ 53"
    by (simp_all add: power_int_add [symmetric] k_def)
  have X52: "2 ^ 52 \<le> X"
  proof -
    have "2 powi e * 2 powi (- k) \<le> q * 2 powi (- k)"
      using q(1) by (intro mult_right_mono) simp_all
    then show ?thesis by (simp add: p X_def)
  qed
  have X53: "X < 2 ^ 53"
  proof -
    have "q * 2 powi (- k) < 2 powi (e + 1) * 2 powi (- k)"
      using q(2) by (intro mult_strict_right_mono) simp_all
    then show ?thesis by (simp add: p X_def)
  qed
  have m52: "2 ^ 52 \<le> m"
    using int_ge_of_rat_bound [OF err, of "2 ^ 52"] X52 by simp
  have m53: "m \<le> 2 ^ 53"
    using int_le_of_rat_bound [OF err, of "2 ^ 53"] X53 by simp
  have "m < 2 ^ 54" using m53 by simp
  then have bl: "bitlen m \<le> 54" using bitlen_le [of m 54] by simp
  have rq: "round_quot a b = Finite m (e - 52)"
  proof -
    have mx: "max (floor_log2_quot a b) (- 1022) = e" using e lo by simp
    have ab: "\<bar>a\<bar> = a" "sgn a = 1" "a \<noteq> 0" using assms(1) by simp_all
    have "bitlen (rne_div (a * 2 ^ nat (- (e - 52))) (b * 2 ^ nat (e - 52))) \<le> 54"
      using bl unfolding m_def N_def D_def k_def .
    with hi have nb: "\<not> bitlen (rne_div (a * 2 ^ nat (- (e - 52))) (b * 2 ^ nat (e - 52))) + (e - 52) > 1024"
      by linarith
    show ?thesis
      unfolding round_quot_def Let_def ab mx using nb assms(1)
      by (simp add: m_def N_def D_def k_def)
  qed
  have "\<bar>of_int m * 2 powi k - q\<bar> = \<bar>of_int m - X\<bar> * 2 powi k"
  proof -
    have "q = X * 2 powi k" by (simp add: X_def power_int_minus field_simps)
    then have "of_int m * 2 powi k - q = (of_int m - X) * 2 powi k" by (simp add: algebra_simps)
    then show ?thesis by (simp add: abs_mult)
  qed
  also have "\<dots> \<le> 1 / 2 * 2 powi k"
    using err by (intro mult_right_mono) simp_all
  also have "\<dots> = 2 powi (e - 53)"
  proof -
    have "(2::rat) powi k = 2 * 2 powi (k - 1)" using powi_Suc [of "k - 1"] by simp
    moreover have "e - 53 = k - 1" by (simp add: k_def)
    ultimately show ?thesis by simp
  qed
  finally have "\<bar>of_int m * 2 powi (e - 52) - q\<bar> \<le> 2 powi (e - 53)" by (simp add: k_def)
  moreover have "m = rne_div (a * 2 ^ nat (52 - e)) (b * 2 ^ nat (e - 52))"
    by (simp add: m_def N_def D_def k_def)
  ultimately show ?thesis using rq m52 m53 by (auto simp: q_def)
qed

lemma round_quot_rel:
  assumes "0 < a" and "0 < b"
    and lo: "2 powi l \<le> (of_int a / of_int b :: rat)" and l: "- 1022 \<le> l"
    and hi: "(of_int a / of_int b :: rat) < 2 powi h" and h: "h \<le> 1023"
  shows "\<exists>m k. round_quot a b = Finite m k \<and> 0 < m \<and>
           \<bar>of_int m * 2 powi k - (of_int a / of_int b :: rat)\<bar> \<le> of_int a / of_int b * 2 powi (- 53)"
proof -
  define e where "e = floor_log2_quot a b"
  define q :: rat where "q = of_int a / of_int b"
  from floor_log2_quot_bounds [OF assms(1,2)]
  have q: "2 powi e \<le> q" "q < 2 powi (e + 1)" by (simp_all add: q_def e_def)
  from q(1) hi have "(2::rat) powi e < 2 powi h" unfolding q_def by (rule le_less_trans)
  then have "e < h" by (rule powi_less_cancel)
  with h have e_hi: "e \<le> 1022" by simp
  from lo q(2) have "(2::rat) powi l < 2 powi (e + 1)" unfolding q_def by (rule le_less_trans)
  then have "l < e + 1" by (rule powi_less_cancel)
  with l have e_lo: "- 1022 \<le> e" by simp
  from round_quot_normal [OF assms(1,2) e_def e_lo e_hi] obtain m
    where m: "round_quot a b = Finite m (e - 52)" "2 ^ 52 \<le> m"
      "\<bar>of_int m * 2 powi (e - 52) - q\<bar> \<le> 2 powi (e - 53)"
    by (auto simp: q_def)
  have "(2::rat) powi (e - 53) = 2 powi e * 2 powi (- 53)"
    using power_int_add [of "2::rat" e "- 53"] by simp
  also have "\<dots> \<le> q * 2 powi (- 53)"
    using q(1) by (intro mult_right_mono) (simp_all del: power_int_minus)
  finally have b: "(2::rat) powi (e - 53) \<le> q * 2 powi (- 53)" .
  from m(3) b have "\<bar>of_int m * 2 powi (e - 52) - q\<bar> \<le> q * 2 powi (- 53)"
    by (rule order_trans)
  moreover from m(2) have "0 < m" by simp
  ultimately show ?thesis using m(1) unfolding q_def by blast
qed

lemma float_of_int_exact:
  assumes "0 < w" and "w < 2 ^ 53"
  shows "\<exists>m k. py_float_of_int w = Inr (Finite m k) \<and> 0 < m \<and> (of_int m * 2 powi k :: rat) = of_int w"
proof -
  define e where "e = floor_log2_quot w 1"
  from floor_log2_quot_bounds [of w 1] assms(1)
  have q: "(2::rat) powi e \<le> of_int w" "(of_int w :: rat) < 2 powi (e + 1)" by (simp_all add: e_def)
  have "(of_int w :: rat) < of_int (2 ^ 53)" using assms(2) by (simp only: of_int_less_iff)
  with q(1) have "(2::rat) powi e < 2 powi 53" by simp
  then have e_hi: "e \<le> 52" using powi_less_cancel [of e 53] by simp
  have "(1::rat) \<le> of_int w" using assms(1) by simp
  with q(2) have "(2::rat) powi 0 < 2 powi (e + 1)" by simp
  then have e_lo: "0 \<le> e" using powi_less_cancel [of 0 "e + 1"] by simp
  from round_quot_normal [OF assms(1) _ e_def] e_lo e_hi obtain m
    where m: "m = rne_div (w * 2 ^ nat (52 - e)) (1 * 2 ^ nat (e - 52))"
      "round_quot w 1 = Finite m (e - 52)" "2 ^ 52 \<le> m"
    by auto
  from m(1) e_hi have mv: "m = w * 2 ^ nat (52 - e)" by (simp add: rne_div_one)
  have "(of_int m * 2 powi (e - 52) :: rat) = of_int w * (2 powi (52 - e) * 2 powi (e - 52))"
    using e_hi by (simp add: mv powi_nat)
  also have "\<dots> = of_int w" by (simp add: power_int_add [symmetric])
  finally have "(of_int m * 2 powi (e - 52) :: rat) = of_int w" .
  moreover from m(3) have "0 < m" by simp
  ultimately show ?thesis using m(2) by (auto simp: py_float_of_int_def)
qed

lemma py_int_of_float_floor:
  assumes "0 \<le> m"
  shows "py_int_of_float (Finite m k) = Inr \<lfloor>(of_int m * 2 powi k :: rat)\<rfloor>"
proof (cases "0 \<le> k")
  case True
  have "(of_int m * 2 powi k :: rat) = of_int (m * 2 ^ nat k)" using True by (simp add: powi_nat)
  then have "\<lfloor>(of_int m * 2 powi k :: rat)\<rfloor> = m * 2 ^ nat k" by (simp only: floor_of_int)
  with True show ?thesis by simp
next
  case False
  then have "(2::rat) powi k = 1 / of_int (2 ^ nat (- k))"
    by (simp add: power_int_def field_simps)
  then have "(of_int m * 2 powi k :: rat) = of_int m / of_int (2 ^ nat (- k))" by simp
  then have "\<lfloor>(of_int m * 2 powi k :: rat)\<rfloor> = m div 2 ^ nat (- k)"
    by (simp only: floor_divide_of_int_eq)
  moreover have "sgn m * (\<bar>m\<bar> div 2 ^ nat (- k)) = m div 2 ^ nat (- k)"
    using assms by (cases "m = 0") simp_all
  ultimately show ?thesis using False by simp
qed

lemma float_mul_finite:
  assumes "0 < m1" and "0 < m2"
  shows "\<exists>a b. 0 < a \<and> 0 < b \<and> float_mul (Finite m1 k1) (Finite m2 k2) = round_quot a b \<and>
           (of_int a / of_int b :: rat) = (of_int m1 * 2 powi k1) * (of_int m2 * 2 powi k2)"
proof (cases "0 \<le> k1 + k2")
  case True
  let ?a = "m1 * m2 * 2 ^ nat (k1 + k2)"
  have "float_mul (Finite m1 k1) (Finite m2 k2) = round_quot ?a 1" using True by (simp add: Let_def)
  moreover have "0 < ?a" using assms by simp
  moreover have "(of_int ?a / of_int 1 :: rat) = (of_int m1 * 2 powi k1) * (of_int m2 * 2 powi k2)"
    using True by (simp add: power_int_add powi_nat [symmetric])
  ultimately show ?thesis by (intro exI [of _ ?a] exI [of _ 1]) simp
next
  case False
  let ?b = "2 ^ nat (- (k1 + k2)) :: int"
  have f: "float_mul (Finite m1 k1) (Finite m2 k2) = round_quot (m1 * m2) ?b"
    using False by (simp add: Let_def)
  have pos: "0 < m1 * m2" "0 < ?b" using assms by simp_all
  have "(2::rat) powi (k1 + k2) = 1 / of_int ?b"
    using False by (simp add: power_int_def field_simps)
  then have p: "(2::rat) powi k1 * 2 powi k2 = 1 / of_int ?b"
    by (simp only: power_int_add [of "2::rat" k1 k2, simplified])
  have "(of_int (m1 * m2) / of_int ?b :: rat) = of_int m1 * of_int m2 * (1 / of_int ?b)" by simp
  also have "\<dots> = of_int m1 * of_int m2 * (2 powi k1 * 2 powi k2)" by (simp only: p)
  also have "\<dots> = (of_int m1 * 2 powi k1) * (of_int m2 * 2 powi k2)" by (simp only: ac_simps)
  finally have "(of_int (m1 * m2) / of_int ?b :: rat) = (of_int m1 * 2 powi k1) * (of_int m2 * 2 powi k2)" .
  with f pos show ?thesis by blast
qed

lemma new_height_close:
  assumes w: "0 < w" and H: "0 < H" and W: "0 < W" and W64: "W < 2 ^ 64"
    and wH: "w * H < 2 ^ 51"
  shows "\<exists>Y::rat. new_height_of w (W, H) = Inr \<lfloor>Y\<rfloor> \<and>
           \<bar>Y - of_int (w * H) / of_int W\<bar> < 1 / of_int W"
proof -
  define u :: rat where "u = 2 powi (- 53)"
  define h :: rat where "h = of_int H / of_int W"
  define x :: rat where "x = of_int (w * H) / of_int W"
  have u: "0 < u" "u = 1 / 2 ^ 53" by (simp_all add: u_def power_int_minus field_simps)
  have Wr: "(0::rat) < of_int W" "(1::rat) \<le> of_int W" using W by simp_all
  have Hr: "(1::rat) \<le> of_int H" using H by simp
  have wr: "(1::rat) \<le> of_int w" using w by simp
  have xh: "x = of_int w * h" by (simp add: x_def h_def)
  have h_pos: "0 < h" using H W by (simp add: h_def)
  have x_pos: "0 < x" using w h_pos by (simp add: xh)
  \<comment> \<open>the ranges of the quotient\<close>
  have "w \<le> w * H" using w H by (simp add: mult_le_cancel_left1)
  with wH have w53: "w < 2 ^ 53" by simp
  have "H \<le> w * H" using w H by (simp add: mult_le_cancel_right1)
  with wH have H51: "H < 2 ^ 51" by simp
  have h_lo: "2 powi (- 64) \<le> h"
  proof -
    have "(of_int W :: rat) \<le> of_int (2 ^ 64)" using W64 by (simp only: of_int_le_iff)
    then have "1 / of_int (2 ^ 64) \<le> 1 / (of_int W :: rat)"
      using Wr(1) by (intro divide_left_mono) simp_all
    also have "\<dots> \<le> h" unfolding h_def using Hr Wr(1) by (intro divide_right_mono) simp_all
    finally show ?thesis by (simp add: power_int_minus field_simps)
  qed
  have h_hi: "h < 2 powi 51"
  proof -
    have "h \<le> of_int H" unfolding h_def using Wr Hr by (simp add: field_simps mult_le_cancel_left1)
    also have "(of_int H :: rat) < of_int (2 ^ 51)" using H51 by (simp only: of_int_less_iff)
    finally show ?thesis by simp
  qed
  \<comment> \<open>the aspect ratio\<close>
  from round_quot_rel [OF H W h_lo [unfolded h_def] _ h_hi [unfolded h_def]]
  obtain m1 k1 where a: "round_quot H W = Finite m1 k1" "0 < m1"
    and ae: "\<bar>of_int m1 * 2 powi k1 - h\<bar> \<le> h * u"
    unfolding h_def u_def by auto
  define A :: rat where "A = of_int m1 * 2 powi k1"
  have td: "py_truediv H W = Inr (Finite m1 k1)"
    using W a(1) by (simp add: py_truediv_def)
  have A: "\<bar>A - h\<bar> \<le> h * u" using ae by (simp add: A_def)
  \<comment> \<open>the width as a float\<close>
  from float_of_int_exact [OF w w53] obtain mw kw
    where f: "py_float_of_int w = Inr (Finite mw kw)" "0 < mw"
      and fv: "(of_int mw * 2 powi kw :: rat) = of_int w"
    by blast
  \<comment> \<open>the product\<close>
  from float_mul_finite [OF f(2) a(2)] obtain a' b'
    where ab: "0 < a'" "0 < b'" "float_mul (Finite mw kw) (Finite m1 k1) = round_quot a' b'"
      and pv: "(of_int a' / of_int b' :: rat) = (of_int mw * 2 powi kw) * (of_int m1 * 2 powi k1)"
    by blast
  define P :: rat where "P = of_int w * A"
  have P: "(of_int a' / of_int b' :: rat) = P" by (simp add: pv fv P_def A_def)
  have Px: "\<bar>P - x\<bar> \<le> x * u"
  proof -
    have "\<bar>P - x\<bar> = of_int w * \<bar>A - h\<bar>"
      using w by (simp add: P_def xh right_diff_distrib [symmetric] abs_mult)
    also have "\<dots> \<le> of_int w * (h * u)" using A w by (intro mult_left_mono) simp_all
    finally show ?thesis by (simp add: xh mult.assoc)
  qed
  have u_half: "u \<le> 1 / 2" by (simp add: u(2))
  have A_lo: "h / 2 \<le> A"
  proof -
    have "h * u \<le> h * (1 / 2)" using h_pos u_half by (intro mult_left_mono) simp_all
    with A show ?thesis by (simp add: abs_le_iff)
  qed
  have P_lo: "2 powi (- 65) \<le> P"
  proof -
    have "(2::rat) powi (- 65) = 2 powi (- 64) / 2"
      using powi_Suc [of "- 65"] by simp
    also have "\<dots> \<le> h / 2" using h_lo by simp
    also have "\<dots> \<le> A" by (rule A_lo)
    also have "A \<le> P" unfolding P_def using wr A_lo h_pos
      by (simp add: mult_le_cancel_right1)
    finally show ?thesis .
  qed
  have xW: "x * of_int W < 2 ^ 51"
  proof -
    have "x * of_int W = of_int (w * H)" using Wr(1) by (simp add: x_def)
    also have "(of_int (w * H) :: rat) < of_int (2 ^ 51)" using wH by (simp only: of_int_less_iff)
    finally show ?thesis by simp
  qed
  have x51: "x < 2 ^ 51"
  proof -
    have "x \<le> x * of_int W" using x_pos Wr(2) by (simp add: mult_le_cancel_left1)
    with xW show ?thesis by simp
  qed
  have P_up: "P \<le> x + x * u" using Px by (simp add: abs_le_iff)
  have P_hi: "P < 2 powi 52"
  proof -
    have "x * u \<le> x * (1 / 2)" using x_pos u_half by (intro mult_left_mono) simp_all
    with P_up x51 have "P < 2 ^ 51 + 2 ^ 51 / 2" by linarith
    then show ?thesis by simp
  qed
  from round_quot_rel [OF ab(1,2) P_lo [folded P] _ P_hi [folded P]]
  obtain m2 k2 where y: "round_quot a' b' = Finite m2 k2" "0 < m2"
    and ye: "\<bar>of_int m2 * 2 powi k2 - P\<bar> \<le> P * u"
    unfolding P u_def by auto
  define Y :: rat where "Y = of_int m2 * 2 powi k2"
  have nh: "new_height_of w (W, H) = Inr \<lfloor>Y\<rfloor>"
    using td f(1) ab(3) y py_int_of_float_floor [of m2 k2]
    by (simp add: new_height_of_def py_mul_int_float_def Y_def)
  \<comment> \<open>the error\<close>
  have "P * u \<le> (x + x * u) * u" using P_up u(1) by (intro mult_right_mono) simp_all
  with ye have "\<bar>Y - P\<bar> \<le> (x + x * u) * u" by (simp add: Y_def)
  with Px have "\<bar>Y - x\<bar> \<le> x * u + (x + x * u) * u" by linarith
  also have "\<dots> = x * (2 * u + u * u)" by (simp add: algebra_simps)
  finally have e1: "\<bar>Y - x\<bar> \<le> x * (2 * u + u * u)" .
  have c: "(2::rat) ^ 51 * (2 * u + u * u) < 1" by (simp add: u(2))
  have "x * (2 * u + u * u) * of_int W = x * of_int W * (2 * u + u * u)" by (simp add: ac_simps)
  also have "\<dots> \<le> 2 ^ 51 * (2 * u + u * u)"
    using xW u(1) by (intro mult_right_mono) simp_all
  also note c
  finally have "x * (2 * u + u * u) < 1 / of_int W"
    using Wr(1) by (simp add: field_simps)
  with e1 have "\<bar>Y - x\<bar> < 1 / of_int W" by linarith
  with nh show ?thesis unfolding x_def by blast
qed

lemma floor_near_quotient:
  assumes W: "0 < W" and Y: "\<bar>Y - (of_int a / of_int W :: rat)\<bar> < 1 / of_int W"
  shows "\<lfloor>Y\<rfloor> = a div W \<or> (W dvd a \<and> \<lfloor>Y\<rfloor> = a div W - 1)"
proof -
  define q where "q = a div W"
  define r where "r = a mod W"
  have a: "a = q * W + r" by (simp add: q_def r_def)
  have r: "0 \<le> r" "r < W" using W by (simp_all add: r_def)
  have Wr: "(0::rat) < of_int W" "(1::rat) \<le> of_int W" using W by simp_all
  have x: "(of_int a / of_int W :: rat) = of_int q + of_int r / of_int W"
    using Wr(1) by (simp add: a field_simps)
  have i: "1 / (of_int W :: rat) \<le> 1" using Wr by simp
  show ?thesis
  proof (cases "r = 0")
    case True
    then have d: "W dvd a" by (simp add: r_def dvd_eq_mod_eq_0)
    from Y x True have "of_int q - 1 / of_int W < Y" "Y < of_int q + 1 / of_int W"
      by (simp_all add: abs_less_iff)
    with i have b: "of_int (q - 1) < Y" "Y < of_int q + 1" by simp_all
    show ?thesis
    proof (cases "of_int q \<le> Y")
      case True
      with b(2) have "\<lfloor>Y\<rfloor> = q" by (simp add: floor_eq_iff)
      then show ?thesis by (simp add: q_def)
    next
      case False
      with b(1) have "\<lfloor>Y\<rfloor> = q - 1" by (simp add: floor_eq_iff)
      with d show ?thesis by (simp add: q_def)
    qed
  next
    case False
    with r have r1: "1 \<le> r" "r \<le> W - 1" by simp_all
    have "(of_int 1 :: rat) \<le> of_int r" using r1(1) by (simp only: of_int_le_iff)
    then have lo: "1 / of_int W \<le> (of_int r / of_int W :: rat)"
      using Wr(1) by (simp add: divide_right_mono)
    have "(of_int r :: rat) \<le> of_int (W - 1)" using r1(2) by (simp only: of_int_le_iff)
    then have "(of_int r / of_int W :: rat) \<le> of_int (W - 1) / of_int W"
      using Wr(1) by (simp add: divide_right_mono)
    also have "\<dots> = 1 - 1 / of_int W" using Wr(1) by (simp add: field_simps)
    finally have hi: "(of_int r / of_int W :: rat) \<le> 1 - 1 / of_int W" .
    from Y x lo hi have "of_int q < Y" "Y < of_int q + 1"
      by (simp_all add: abs_less_iff)
    then have "\<lfloor>Y\<rfloor> = q" by (simp add: floor_eq_iff)
    then show ?thesis by (simp add: q_def)
  qed
qed

lemma new_height_div:
  assumes "0 < w" and "0 < H" and "0 < W" and "W < 2 ^ 64" and "w * H < 2 ^ 51"
  shows "new_height_of w (W, H) = Inr (w * H div W) \<or>
         (W dvd w * H \<and> new_height_of w (W, H) = Inr (w * H div W - 1))"
proof -
  from new_height_close [OF assms] obtain Y :: rat
    where Y: "new_height_of w (W, H) = Inr \<lfloor>Y\<rfloor>"
      "\<bar>Y - of_int (w * H) / of_int W\<bar> < 1 / of_int W"
    by blast
  from floor_near_quotient [OF assms(3) Y(2)] Y(1) show ?thesis by auto
qed

lemma new_height_zero:
  assumes "0 < w" and "0 < H" and "0 < W" and "W < 2 ^ 51" and "w * H < W"
  shows "new_height_of w (W, H) = Inr 0"
proof -
  from assms have b: "W < 2 ^ 64" "w * H < 2 ^ 51" by simp_all
  from assms have p: "0 < w * H" by simp
  with assms(5) have "w * H div W = 0" by simp
  moreover from p assms(5) have "\<not> W dvd w * H"
    by (meson zdvd_not_zless)
  ultimately show ?thesis using new_height_div [OF assms(1-3) b] by simp
qed

lemma resize_ok:
  assumes "resize E img (width, h) = Inr r" and "img_size img = (W, H)"
  shows "img_size r = (width, h)"
    and "(W, H) = (width, h) \<or> (1 \<le> h \<and> h \<le> 2 ^ 31 - 1 \<and> width \<le> 2 ^ 31 - 1)"
  using assms by (auto simp: resize_def c_int_arg_def split: if_splits option.splits)

lemma resize_goes_through:
  assumes "img_size img = (W, H)" and "0 < width"
    and "(W, H) = (width, h) \<or>
         (1 \<le> h \<and> h \<le> 2 ^ 31 - 1 \<and> width \<le> 2 ^ 31 - 1 \<and> resize_fault E img (width, h) = None)"
  shows "\<exists>r. resize E img (width, h) = Inr r"
  using assms by (auto simp: resize_def c_int_arg_def)

lemma save_goes_through:
  assumes "save_fault E img fmt = None"
  shows "\<exists>w'. save E w img path fmt q opt = (Inr (), w')"
  using assms by (simp add: save_def)

text \<open>
  C5, as the code has it. Let the source decode to \<open>W\<close> by \<open>H\<close> pixels and \<open>w\<close> be the
  target width (\<open>0 < W < 2 ^ 64\<close>, \<open>0 < H\<close>, \<open>0 < w\<close>, \<open>w * H < 2 ^ 51\<close>). The height the code
  computes is \<open>h = int(w * (H / W))\<close>, the double product cut off towards zero: it is the
  integer quotient \<open>w * H div W\<close>, the exact ratio rounded down and not to the nearest; only
  where \<open>W\<close> divides \<open>w * H\<close> can the double product fall short of the exact integer, and
  \<open>h\<close> be one less. Whenever \<open>compress_and_create_thumbnail\<close> returns normally, the file at
  the output path holds an image of \<open>w\<close> by \<open>h\<close> pixels, and then either the source has
  this very size or \<open>1 \<le> h\<close> and both sides are at most \<open>2 ^ 31 - 1\<close>: for other sizes
  \<open>resize\<close> raises and there is no output. Under this condition the call does return
  normally when neither \<open>resize\<close> nor \<open>save\<close> fails on its own account.
\<close>

theorem resized_output_height:
  assumes "map_of (files w) image_path = Some c" and "image_open E c = Inr img"
    and "img_size img = (W, H)"
    and "0 < width" and "0 < H" and "0 < W" and "W < 2 ^ 64" and "width * H < 2 ^ 51"
  shows "\<exists>h. new_height_of width (W, H) = Inr h \<and>
           (h = width * H div W \<or> (W dvd width * H \<and> h = width * H div W - 1)) \<and>
           (\<forall>u w'. compress_and_create_thumbnail E w image_path output_path width original_ext quality
                      = (Inr u, w') \<longrightarrow>
              (\<exists>enc. map_of (files w') output_path = Some (Encoded enc) \<and>
                     img_size (enc_image enc) = (width, h)) \<and>
              ((W, H) = (width, h) \<or> (1 \<le> h \<and> h \<le> 2 ^ 31 - 1 \<and> width \<le> 2 ^ 31 - 1))) \<and>
           (((W, H) = (width, h) \<or>
             (1 \<le> h \<and> h \<le> 2 ^ 31 - 1 \<and> width \<le> 2 ^ 31 - 1 \<and>
              resize_fault E img (width, h) = None)) \<and>
            (\<forall>i f. save_fault E i f = None) \<longrightarrow>
              (\<exists>w'. compress_and_create_thumbnail E w image_path output_path width original_ext quality
                      = (Inr (), w')))"
proof -
  let ?run = "compress_and_create_thumbnail E w image_path output_path width original_ext quality"
  from new_height_div [OF assms(4-8)] obtain h
    where h: "new_height_of width (W, H) = Inr h"
      and hv: "h = width * H div W \<or> (W dvd width * H \<and> h = width * H div W - 1)"
    by auto
  have run: "?run =
      (case resize E img (width, h) of
         Inl e \<Rightarrow> (Inl e, w)
       | Inr r \<Rightarrow>
           if lower original_ext = ''.png'' then save E w r output_path ''PNG'' None True
           else save E w (if img_mode r \<in> set [''RGBA'', ''P''] then convert r ''RGB'' else r)
                  output_path ''JPEG'' (Some quality) True)"
    using assms(1-3) h
    by (cases "resize E img (width, h)") (simp_all add: compress_and_create_thumbnail_def Let_def)
  have out: "\<forall>u w'. ?run = (Inr u, w') \<longrightarrow>
              (\<exists>enc. map_of (files w') output_path = Some (Encoded enc) \<and>
                     img_size (enc_image enc) = (width, h)) \<and>
              ((W, H) = (width, h) \<or> (1 \<le> h \<and> h \<le> 2 ^ 31 - 1 \<and> width \<le> 2 ^ 31 - 1))"
  proof (intro allI impI)
    fix u w'
    assume a: "?run = (Inr u, w')"
    with run obtain r where r: "resize E img (width, h) = Inr r"
      by (cases "resize E img (width, h)") auto
    note sz = resize_ok [OF r assms(3)]
    have "\<exists>enc. map_of (files w') output_path = Some (Encoded enc) \<and>
                     img_size (enc_image enc) = (width, h)"
    proof (cases "lower original_ext = ''.png''")
      case True
      with a run r have "save E w r output_path ''PNG'' None True = (Inr u, w')" by simp
      from save_ok_file [OF this] sz(1) show ?thesis by simp
    next
      case False
      let ?r' = "if img_mode r \<in> set [''RGBA'', ''P''] then convert r ''RGB'' else r"
      from False a run r have "save E w ?r' output_path ''JPEG'' (Some quality) True = (Inr u, w')"
        by simp
      from save_ok_file [OF this] sz(1) show ?thesis by (auto simp: convert_def)
    qed
    with sz(2) show "(\<exists>enc. map_of (files w') output_path = Some (Encoded enc) \<and>
                     img_size (enc_image enc) = (width, h)) \<and>
              ((W, H) = (width, h) \<or> (1 \<le> h \<and> h \<le> 2 ^ 31 - 1 \<and> width \<le> 2 ^ 31 - 1))"
      by simp
  qed
  have ok: "((W, H) = (width, h) \<or>
             (1 \<le> h \<and> h \<le> 2 ^ 31 - 1 \<and> width \<le> 2 ^ 31 - 1 \<and>
              resize_fault E img (width, h) = None)) \<and>
            (\<forall>i f. save_fault E i f = None) \<longrightarrow> (\<exists>w'. ?run = (Inr (), w'))"
  proof
    assume a: "((W, H) = (width, h) \<or>
             (1 \<le> h \<and> h \<le> 2 ^ 31 - 1 \<and> width \<le> 2 ^ 31 - 1 \<and>
              resize_fault E img (width, h) = None)) \<and>
            (\<forall>i f. save_fault E i f = None)"
    then have "(W, H) = (width, h) \<or>
             (1 \<le> h \<and> h \<le> 2 ^ 31 - 1 \<and> width \<le> 2 ^ 31 - 1 \<and>
              resize_fault E img (width, h) = None)"
      and sf: "\<And>i f. save_fault E i f = None" by simp_all
    from resize_goes_through [OF assms(3,4) this(1)] obtain r
      where r: "resize E img (width, h) = Inr r" by blast
    show "\<exists>w'. ?run = (Inr (), w')"
      using run r save_goes_through [OF sf] by simp
  qed
  from h hv out ok show ?thesis by blast
qed

lemma sample_height: "new_height_of 200 (1000, 999) = Inr 199"
  by code_simp

lemma tall_height: "new_height_of 200 (1000, 4600) = Inr 919"
  by code_simp

theorem resized_output_height_witness:
  "map_of (files fetched_world) ''/tmp/tmpk3x9/My Photo (1).png'' = Some (SourceBytes 0) \<and>
   image_open sample_env (SourceBytes 0) = Inr \<lparr>img_size = (1000, 999), img_mode = ''RGBA''\<rparr> \<and>
   image_open tall_env (SourceBytes 0) = Inr \<lparr>img_size = (1000, 4600), img_mode = ''RGB''\<rparr> \<and>
   image_open wide_env (SourceBytes 0) = Inr \<lparr>img_size = (1000, 1), img_mode = ''RGB''\<rparr> \<and>
   (0::int) < 200 \<and> (0::int) < 999 \<and> (0::int) < 4600 \<and> (0::int) < 1 \<and> (0::int) < 1000 \<and>
   (1000::int) < 2 ^ 64 \<and> (200::int) * 999 < 2 ^ 51 \<and> (200::int) * 4600 < 2 ^ 51 \<and>
   (200::int) * 1 < 2 ^ 51 \<and>
   new_height_of 200 (1000, 999) = Inr 199 \<and> (200::int) * 999 div 1000 = 199 \<and>
   (\<exists>w' enc. compress_and_create_thumbnail sample_env fetched_world ''/tmp/tmpk3x9/My Photo (1).png''
               ''/tmp/tmpk3x9/200_My_Photo__1__deadbeef.png'' 200 ''.png'' default_quality = (Inr (), w') \<and>
             map_of (files w') ''/tmp/tmpk3x9/200_My_Photo__1__deadbeef.png'' = Some (Encoded enc) \<and>
             img_size (enc_image enc) = (200, 199)) \<and>
   new_height_of 200 (1000, 4600) = Inr 919 \<and> (200::int) * 4600 div 1000 = 920 \<and>
   (1000::int) dvd 200 * 4600 \<and>
   (\<exists>w' enc. compress_and_create_thumbnail tall_env fetched_world ''/tmp/tmpk3x9/My Photo (1).png''
               ''/tmp/tmpk3x9/200_My_Photo__1__deadbeef.png'' 200 ''.png'' default_quality = (Inr (), w') \<and>
             map_of (files w') ''/tmp/tmpk3x9/200_My_Photo__1__deadbeef.png'' = Some (Encoded enc) \<and>
             img_size (enc_image enc) = (200, 919)) \<and>
   new_height_of 200 (1000, 1) = Inr 0 \<and>
   fst (compress_and_create_thumbnail wide_env fetched_world ''/tmp/tmpk3x9/My Photo (1).png''
          ''/tmp/tmpk3x9/200_My_Photo__1__deadbeef.png'' 200 ''.png'' default_quality) \<noteq> Inr ()"
proof -
  let ?ip = "''/tmp/tmpk3x9/My Photo (1).png''"
  let ?op = "''/tmp/tmpk3x9/200_My_Photo__1__deadbeef.png''"
  have f: "map_of (files fetched_world) ?ip = Some (SourceBytes 0)"
    by code_simp
  have n: "(0::int) < 200" "(0::int) < 1000" "(1000::int) < 2 ^ 64" by simp_all
  have a1: "image_open sample_env (SourceBytes 0) = Inr \<lparr>img_size = (1000, 999), img_mode = ''RGBA''\<rparr>"
    by (simp add: sample_env_def)
  have a2: "img_size \<lparr>img_size = (1000, 999), img_mode = ''RGBA''\<rparr> = (1000, 999)" by simp
  have a3: "(0::int) < 999" "(200::int) * 999 < 2 ^ 51" by simp_all
  have a4: "resize_fault sample_env \<lparr>img_size = (1000, 999), img_mode = ''RGBA''\<rparr> (200, 199) = None"
    "\<forall>i f. save_fault sample_env i f = None"
    by (simp_all add: sample_env_def)
  from resized_output_height [OF f a1 a2 n(1) a3(1) n(2,3) a3(2), of ?op "''.png''" default_quality]
    sample_height
  have a5: "(\<forall>u w'. compress_and_create_thumbnail sample_env fetched_world ?ip ?op 200 ''.png''
                     default_quality = (Inr u, w') \<longrightarrow>
              (\<exists>enc. map_of (files w') ?op = Some (Encoded enc) \<and>
                     img_size (enc_image enc) = (200, 199)))"
    and a6: "(1 \<le> (199::int) \<and> (199::int) \<le> 2 ^ 31 - 1 \<and> (200::int) \<le> 2 ^ 31 - 1 \<and>
              resize_fault sample_env \<lparr>img_size = (1000, 999), img_mode = ''RGBA''\<rparr> (200, 199) = None) \<and>
            (\<forall>i f. save_fault sample_env i f = None) \<longrightarrow>
              (\<exists>w'. compress_and_create_thumbnail sample_env fetched_world ?ip ?op 200 ''.png''
                      default_quality = (Inr (), w'))"
    by auto
  from a6 a4 obtain wa where "compress_and_create_thumbnail sample_env fetched_world ?ip ?op 200 ''.png''
                      default_quality = (Inr (), wa)" by auto
  with a5 have A: "\<exists>w' enc. compress_and_create_thumbnail sample_env fetched_world ?ip ?op 200 ''.png''
               default_quality = (Inr (), w') \<and>
             map_of (files w') ?op = Some (Encoded enc) \<and> img_size (enc_image enc) = (200, 199)"
    by blast
  have b1: "image_open tall_env (SourceBytes 0) = Inr \<lparr>img_size = (1000, 4600), img_mode = ''RGB''\<rparr>"
    by (simp add: tall_env_def)
  have b2: "img_size \<lparr>img_size = (1000, 4600), img_mode = ''RGB''\<rparr> = (1000, 4600)" by simp
  have b3: "(0::int) < 4600" "(200::int) * 4600 < 2 ^ 51" by simp_all
  have b4: "resize_fault tall_env \<lparr>img_size = (1000, 4600), img_mode = ''RGB''\<rparr> (200, 919) = None"
    "\<forall>i f. save_fault tall_env i f = None"
    by (simp_all add: tall_env_def sample_env_def)
  from resized_output_height [OF f b1 b2 n(1) b3(1) n(2,3) b3(2), of ?op "''.png''" default_quality]
    tall_height
  have b5: "(\<forall>u w'. compress_and_create_thumbnail tall_env fetched_world ?ip ?op 200 ''.png''
                     default_quality = (Inr u, w') \<longrightarrow>
              (\<exists>enc. map_of (files w') ?op = Some (Encoded enc) \<and>
                     img_size (enc_image enc) = (200, 919)))"
    and b6: "(1 \<le> (919::int) \<and> (919::int) \<le> 2 ^ 31 - 1 \<and> (200::int) \<le> 2 ^ 31 - 1 \<and>
              resize_fault tall_env \<lparr>img_size = (1000, 4600), img_mode = ''RGB''\<rparr> (200, 919) = None) \<and>
            (\<forall>i f. save_fault tall_env i f = None) \<longrightarrow>
              (\<exists>w'. compress_and_create_thumbnail tall_env fetched_world ?ip ?op 200 ''.png''
                      default_quality = (Inr (), w'))"
    by auto
  from b6 b4 obtain wb where "compress_and_create_thumbnail tall_env fetched_world ?ip ?op 200 ''.png''
                      default_quality = (Inr (), wb)" by auto
  with b5 have B: "\<exists>w' enc. compress_and_create_thumbnail tall_env fetched_world ?ip ?op 200 ''.png''
               default_quality = (Inr (), w') \<and>
             map_of (files w') ?op = Some (Encoded enc) \<and> img_size (enc_image enc) = (200, 919)"
    by blast
  have c1: "image_open wide_env (SourceBytes 0) = Inr \<lparr>img_size = (1000, 1), img_mode = ''RGB''\<rparr>"
    by (simp add: wide_env_def)
  have c2: "img_size \<lparr>img_size = (1000, 1), img_mode = ''RGB''\<rparr> = (1000, 1)" by simp
  have c3: "(0::int) < 1" "(200::int) * 1 < 2 ^ 51" by simp_all
  have c4: "new_height_of 200 (1000, 1) = Inr 0" by code_simp
  from resized_output_height [OF f c1 c2 n(1) c3(1) n(2,3) c3(2), of ?op "''.png''" default_quality] c4
  have c5: "\<forall>u w'. compress_and_create_thumbnail wide_env fetched_world ?ip ?op 200 ''.png''
                     default_quality \<noteq> (Inr u, w')"
    by auto
  have C: "fst (compress_and_create_thumbnail wide_env fetched_world ?ip ?op 200 ''.png''
                  default_quality) \<noteq> Inr ()"
  proof
    assume "fst (compress_and_create_thumbnail wide_env fetched_world ?ip ?op 200 ''.png''
                  default_quality) = Inr ()"
    from pair_fst_snd [OF this] c5 show False by blast
  qed
  have d: "(200::int) * 999 div 1000 = 199" "(200::int) * 4600 div 1000 = 920"
    "(1000::int) dvd 200 * 4600" by simp_all
  from f a1 b1 c1 n a3 b3 c3 sample_height tall_height c4 A B C d show ?thesis by (intro conjI)
qed

text \<open>
  C5 as stated fails: for a source of 1000 by 999 pixels and width 200 the rounded height
  is 200, the computed one 199, and 199 is the height of the stored thumbnail.
\<close>

theorem rounded_height_counterexample:
  "spec_new_height 200 1000 999 = 200 \<and>
   new_height_of 200 (1000, 999) = Inr 199 \<and>
   image_open sample_env (SourceBytes 0) = Inr \<lparr>img_size = (1000, 999), img_mode = ''RGBA''\<rparr> \<and>
   s3_objects (snd (lambda_handler sample_env sample_world sample_event))
     (''bkt'', sample_output_key ''200'') =
     Some (Encoded \<lparr>enc_image = \<lparr>img_size = (200, 199), img_mode = ''RGBA''\<rparr>,
                     enc_format = ''PNG'', enc_quality = None, enc_optimize = True\<rparr>)"
  by code_simp

text \<open>
  C9. The height is cut off, not rounded, and nothing checks it before \<open>resize\<close>: for a
  source so wide that \<open>w * H < W\<close> (\<open>0 < H\<close>, \<open>0 < W < 2 ^ 51\<close>, \<open>0 < w\<close>) the height is 0,
  \<open>resize\<close> is called with it and raises, and \<open>compress_and_create_thumbnail\<close> ends with
  that exception, writing nothing: the \<open>ValueError\<close> for a side below 1, or, for a width
  that is no C integer, the \<open>OverflowError\<close> that comes before it. So a thumbnail can only
  come out when \<open>w * H \<ge> W\<close>.
\<close>

theorem wide_source_height_zero:
  assumes "map_of (files w) image_path = Some c" and "image_open E c = Inr img"
    and "img_size img = (W, H)"
    and "0 < width" and "0 < H" and "0 < W" and "W < 2 ^ 51" and "width * H < W"
  shows "new_height_of width (W, H) = Inr 0 \<and>
         compress_and_create_thumbnail E w image_path output_path width original_ext quality =
           (Inl (if width \<le> 2 ^ 31 - 1 then ValueError ''height and width must be > 0''
                 else OverflowError ''signed integer is greater than maximum''), w)"
proof -
  note z = new_height_zero [OF assms(4-8)]
  from assms(3,4,5) have "resize E img (width, 0) =
      Inl (if width \<le> 2 ^ 31 - 1 then ValueError ''height and width must be > 0''
           else OverflowError ''signed integer is greater than maximum'')"
    by (simp add: resize_def c_int_arg_def)
  with z assms(1-3) show ?thesis
    by (simp add: compress_and_create_thumbnail_def)
qed

theorem wide_source_height_zero_witness:
  "map_of (files fetched_world) ''/tmp/tmpk3x9/My Photo (1).png'' = Some (SourceBytes 0) \<and>
   image_open wide_env (SourceBytes 0) = Inr \<lparr>img_size = (1000, 1), img_mode = ''RGB''\<rparr> \<and>
   img_size \<lparr>img_size = (1000, 1), img_mode = ''RGB''\<rparr> = (1000, 1) \<and>
   (0::int) < 200 \<and> (0::int) < 1 \<and> (0::int) < 1000 \<and> (1000::int) < 2 ^ 51 \<and> (200::int) * 1 < 1000 \<and>
   new_height_of 200 (1000, 1) = Inr 0 \<and>
   compress_and_create_thumbnail wide_env fetched_world ''/tmp/tmpk3x9/My Photo (1).png''
       ''/tmp/tmpk3x9/200_My_Photo__1__deadbeef.png'' 200 ''.png'' default_quality =
     (Inl (ValueError ''height and width must be > 0''), fetched_world)"
proof -
  have h1: "map_of (files fetched_world) ''/tmp/tmpk3x9/My Photo (1).png'' = Some (SourceBytes 0)"
    by code_simp
  have h2: "image_open wide_env (SourceBytes 0) = Inr \<lparr>img_size = (1000, 1), img_mode = ''RGB''\<rparr>"
    by (simp add: wide_env_def)
  have h3: "img_size \<lparr>img_size = (1000, 1), img_mode = ''RGB''\<rparr> = (1000, 1)" by simp
  from wide_source_height_zero [OF h1 h2 h3, of 200 "''/tmp/tmpk3x9/200_My_Photo__1__deadbeef.png''"
      "''.png''" default_quality] h1 h2
  show ?thesis by simp
qed

end
